(* ===== verification/Relay_Prelude.thy ===== *)
theory Relay_Prelude
  imports Main "HOL-Library.Word"
begin

text \<open>
  Shared vocabulary of the development: the machine types of the Rust sources, results as sums,
  byte strings, the iteration order of hash maps, and the generic message loop (a step function
  over a state, run over the messages a receiver yields) with the locales that carry an invariant
  or a simulation through such a loop, and the same for machines driven by events.
\<close>

named_theorems relay_defs \<open>definitions of the handlers of the relay\<close>
named_theorems relay_frame \<open>what a handler leaves unchanged\<close>
named_theorems wf_intros \<open>preservation of the invariant of the relay state\<close>

type_synonym u8 = "8 word"
type_synonym u16 = "16 word"
type_synonym u64 = "64 word"
type_synonym bytes = "u8 list"

section \<open>Results\<close>

type_synonym ('a, 'e) result = "'e + 'a"

abbreviation Ok :: "'a \<Rightarrow> ('a, 'e) result" where
  "Ok \<equiv> Inr"

abbreviation Err :: "'e \<Rightarrow> ('a, 'e) result" where
  "Err \<equiv> Inl"

definition map_err :: "('e \<Rightarrow> 'f) \<Rightarrow> ('a, 'e) result \<Rightarrow> ('a, 'f) result" where
  "map_err f r = (case r of Inl e \<Rightarrow> Inl (f e) | Inr x \<Rightarrow> Inr x)"

lemma map_err_simps [simp]:
  "map_err f (Ok x) = Ok x"
  "map_err f (Err e) = Err (f e)"
  by (simp_all add: map_err_def)

lemma map_err_eq_Ok [simp]: "map_err f r = Ok x \<longleftrightarrow> r = Ok x"
  by (cases r) auto

section \<open>Byte strings\<close>

text \<open>The bytes of a Rust byte-string literal.\<close>

definition ascii :: "string \<Rightarrow> bytes" where
  "ascii s = map of_char s"

lemma ascii_simps [simp]:
  "ascii [] = []"
  "ascii (c # cs) = of_char c # ascii cs"
  by (simp_all add: ascii_def)

section \<open>Iterating over hash maps\<close>

text \<open>
  A hash map is a map with finite domain. Its iteration visits every key once, in an order the
  standard library leaves open; the order is an input of the operations that iterate.
\<close>

definition iterates :: "'k list \<Rightarrow> ('k \<rightharpoonup> 'v) \<Rightarrow> bool" where
  "iterates ks m \<longleftrightarrow> distinct ks \<and> set ks = dom m"

lemma iterates_distinct: "iterates ks m \<Longrightarrow> distinct ks"
  and iterates_set: "iterates ks m \<Longrightarrow> set ks = dom m"
  by (simp_all add: iterates_def)

lemma iterates_finite: "iterates ks m \<Longrightarrow> finite (dom m)"
  by (metis iterates_def List.finite_set)

lemma finite_dom_upd [simp]: "finite (dom (m(k := v))) = finite (dom m)"
proof (cases v)
  case None
  then show ?thesis by simp
next
  case (Some a)
  then show ?thesis by simp
qed

lemma map_upds_nth:
  "length ks = length vs \<Longrightarrow> distinct ks \<Longrightarrow> j < length vs \<Longrightarrow> (m(ks [\<mapsto>] vs)) (ks ! j) = Some (vs ! j)"
proof (induction ks vs arbitrary: m j rule: list_induct2)
  case (Cons k ks v vs)
  then show ?case by (cases j) (auto simp: map_upds_apply_nontin)
qed simp

section \<open>Message loops\<close>

text \<open>
  A loop that receives messages and hands each to a handler. A handler returns the new state and
  the effects it had, or \<open>None\<close> when it panics, which ends the loop's thread.
\<close>

fun run_loop :: "('i \<Rightarrow> 's \<Rightarrow> ('s \<times> 'o list) option) \<Rightarrow> 'i list \<Rightarrow> 's \<Rightarrow> ('s \<times> 'o list) option" where
  "run_loop step [] s = Some (s, [])"
| "run_loop step (i # is) s =
     (case step i s of
        None \<Rightarrow> None
      | Some (s', out) \<Rightarrow>
          (case run_loop step is s' of
             None \<Rightarrow> None
           | Some (s'', out') \<Rightarrow> Some (s'', out @ out')))"

text \<open>The inputs of a run satisfy a condition on the state each of them is handled in.\<close>

fun inputs_ok :: "('i \<Rightarrow> 's \<Rightarrow> ('s \<times> 'o list) option) \<Rightarrow> ('i \<Rightarrow> 's \<Rightarrow> bool) \<Rightarrow> 'i list \<Rightarrow> 's \<Rightarrow> bool" where
  "inputs_ok step ok [] s = True"
| "inputs_ok step ok (i # is) s =
     (ok i s \<and> (case step i s of None \<Rightarrow> True | Some (s', _) \<Rightarrow> inputs_ok step ok is s'))"

lemma run_loop_append:
  "run_loop step (is @ js) s =
     (case run_loop step is s of
        None \<Rightarrow> None
      | Some (s', out) \<Rightarrow>
          (case run_loop step js s' of
             None \<Rightarrow> None
           | Some (s'', out') \<Rightarrow> Some (s'', out @ out')))"
  by (induction "is" arbitrary: s) (auto split: option.splits)

lemma inputs_ok_append:
  "run_loop step is s = Some (s', out) \<Longrightarrow>
     inputs_ok step ok (is @ js) s \<longleftrightarrow> inputs_ok step ok is s \<and> inputs_ok step ok js s'"
  by (induction "is" arbitrary: s out) (auto split: option.splits)

lemma inputs_ok_all: "\<forall>i \<in> set is. \<forall>s. ok i s \<Longrightarrow> inputs_ok step ok is s"
  by (induction "is" arbitrary: s) (auto split: option.splits)

text \<open>
  An invariant that may depend on how many messages were handled: \<open>allowed n\<close> is the condition
  under which the step after \<open>n\<close> messages keeps it (for a counter that must not wrap, say).
\<close>

locale counted_loop =
  fixes step :: "'i \<Rightarrow> 's \<Rightarrow> ('s \<times> 'o list) option"
    and ok :: "'i \<Rightarrow> 's \<Rightarrow> bool"
    and allowed :: "nat \<Rightarrow> bool"
    and inv :: "nat \<Rightarrow> 's \<Rightarrow> bool"
  assumes step_inv:
    "inv n s \<Longrightarrow> allowed n \<Longrightarrow> ok i s \<Longrightarrow> \<exists>s' out. step i s = Some (s', out) \<and> inv (Suc n) s'"
begin

lemma run_inv:
  assumes "inv n s" and "inputs_ok step ok is s" and "\<And>k. k < length is \<Longrightarrow> allowed (n + k)"
  shows "\<exists>s' out. run_loop step is s = Some (s', out) \<and> inv (n + length is) s'"
  using assms
proof (induction "is" arbitrary: n s)
  case Nil
  then show ?case by simp
next
  case (Cons i "is")
  from Cons.prems(3)[of 0] have "allowed n" by simp
  with Cons.prems(1,2) obtain s' out where step: "step i s = Some (s', out)" and "inv (Suc n) s'"
    using step_inv by fastforce
  moreover have "inputs_ok step ok is s'"
    using Cons.prems(2) step by simp
  moreover have "allowed (Suc n + k)" if "k < length is" for k
    using Cons.prems(3)[of "Suc k"] that by simp
  ultimately obtain s'' out'
    where "run_loop step is s' = Some (s'', out')" and "inv (Suc n + length is) s''"
    using Cons.IH by blast
  then show ?case using step by simp
qed

end

section \<open>Event-driven machines\<close>

text \<open>
  A machine that takes events one at a time; \<open>None\<close> is an event that can not happen in the state. A
  sequence of events is one interleaving of the threads whose steps they are.
\<close>

fun exec_events :: "('i \<Rightarrow> 's \<Rightarrow> 's option) \<Rightarrow> 'i list \<Rightarrow> 's \<Rightarrow> 's option" where
  "exec_events step [] s = Some s"
| "exec_events step (i # is) s = Option.bind (step i s) (exec_events step is)"

lemma exec_events_append:
  "exec_events step (is @ js) s = Option.bind (exec_events step is s) (exec_events step js)"
proof (induction "is" arbitrary: s)
  case (Cons i "is")
  then show ?case by (cases "step i s") simp_all
qed simp

text \<open>An invariant that every event of a given kind keeps.\<close>

locale event_machine =
  fixes step :: "'i \<Rightarrow> 's \<Rightarrow> 's option"
    and ok :: "'i \<Rightarrow> bool"
    and inv :: "'s \<Rightarrow> bool"
  assumes step_inv: "inv s \<Longrightarrow> ok i \<Longrightarrow> pred_option inv (step i s)"
begin

lemma exec_inv:
  "inv s \<Longrightarrow> \<forall>i \<in> set is. ok i \<Longrightarrow> exec_events step is s = Some s' \<Longrightarrow> inv s'"
proof (induction "is" arbitrary: s)
  case (Cons i "is")
  then obtain s1 where s1: "step i s = Some s1" "exec_events step is s1 = Some s'"
    by (auto simp: bind_eq_Some_conv)
  moreover have "inv s1" using step_inv[OF Cons.prems(1), of i] Cons.prems(2) s1(1) by simp
  ultimately show ?case using Cons.IH Cons.prems(2) by simp
qed simp

end

section \<open>Simulation\<close>

text \<open>
  A message loop simulated by an abstract machine: what a message does to the state is, seen through
  an abstraction, a sequence of abstract actions that the message permits.
\<close>

locale simulated_loop = counted_loop step ok allowed inv
  for step :: "'i \<Rightarrow> 's \<Rightarrow> ('s \<times> 'o list) option" and ok allowed inv +
  fixes abs :: "'s \<Rightarrow> 'd"
    and act :: "'a \<Rightarrow> 'd \<Rightarrow> 'd option"
    and permits :: "'i \<Rightarrow> 'a \<Rightarrow> bool"
  assumes simulates: "inv n s \<Longrightarrow> allowed n \<Longrightarrow> ok i s \<Longrightarrow> step i s = Some (s', out) \<Longrightarrow>
    \<exists>as. exec_events act as (abs s) = Some (abs s') \<and> (\<forall>a \<in> set as. permits i a)"
begin

lemma run_simulates:
  assumes "inv n s" "inputs_ok step ok is s" "\<And>k. k < length is \<Longrightarrow> allowed (n + k)" "run_loop step is s = Some (s', out)"
  shows "\<exists>ass. list_all2 (\<lambda>i as. \<forall>a \<in> set as. permits i a) is ass \<and> exec_events act (concat ass) (abs s) = Some (abs s')"
  using assms
proof (induction "is" arbitrary: n s out)
  case Nil
  then show ?case by simp
next
  case (Cons i "is")
  from Cons.prems(3)[of 0] have n: "allowed n" by simp
  from Cons.prems(4) obtain s1 out1 out2 where step: "step i s = Some (s1, out1)" "run_loop step is s1 = Some (s', out2)"
    by (auto split: option.splits)
  have ok: "ok i s" "inputs_ok step ok is s1" using Cons.prems(2) step(1) by simp_all
  obtain as where as: "exec_events act as (abs s) = Some (abs s1)" "\<forall>a \<in> set as. permits i a"
    using simulates[OF Cons.prems(1) n ok(1) step(1)] by blast
  have "inv (Suc n) s1" using step_inv[OF Cons.prems(1) n ok(1)] step(1) by auto
  moreover have "allowed (Suc n + k)" if "k < length is" for k using Cons.prems(3)[of "Suc k"] that by simp
  ultimately obtain ass where "list_all2 (\<lambda>i as. \<forall>a \<in> set as. permits i a) is ass"
    "exec_events act (concat ass) (abs s1) = Some (abs s')" using Cons.IH ok(2) step(2) by blast
  with as show ?case by (intro exI[of _ "as # ass"]) (simp add: exec_events_append)
qed

end

end
