(* ===== verification/Rust_Std.thy ===== *)
theory Rust_Std
  imports Relay_Prelude
begin

text \<open>
  What the sources use of the Rust standard library: big-endian integers, decimal formatting and
  parsing of port numbers, UTF-8 validation, socket addresses and the kinds of I/O errors the
  program distinguishes.
\<close>

unbundle bit_operations_syntax

section \<open>I/O errors and socket addresses\<close>

datatype io_error = TimedOut | InvalidInput | UnexpectedEof | WriteZero | OtherIo nat

datatype socket_addr =
    V4 (ip4: "32 word") (addr_port: u16)
  | V6 (ip6: "128 word") (addr_port: u16) (flowinfo: "32 word") (scope_id: "32 word")

fun set_port :: "socket_addr \<Rightarrow> u16 \<Rightarrow> socket_addr" where
  "set_port (V4 ip _) p = V4 ip p"
| "set_port (V6 ip _ f sc) p = V6 ip p f sc"

lemma addr_port_set_port [simp]: "addr_port (set_port a p) = p"
  by (cases a) auto

section \<open>Asynchronous code\<close>

text \<open>
  What an asynchronous function has come to on the input received so far: it waits for more, it has
  returned, or it has panicked.
\<close>

datatype 'r poll = Pending | Ready 'r | Panicked

text \<open>
  A byte stream that is read from: the bytes that arrive, and how it ends after them, which is not
  known while it is open. \<open>read_exact\<close> takes the number of bytes asked for; when the stream ends
  before, it fails with the error of the stream, \<open>UnexpectedEof\<close> at an orderly end.
\<close>

record in_stream =
  in_bytes :: bytes
  in_end :: "io_error option"

definition read_exact :: "nat \<Rightarrow> in_stream \<Rightarrow> (bytes \<times> in_stream, io_error) result poll" where
  "read_exact n st =
     (if n \<le> length (in_bytes st)
      then Ready (Ok (take n (in_bytes st), st\<lparr>in_bytes := drop n (in_bytes st)\<rparr>))
      else case in_end st of None \<Rightarrow> Pending | Some e \<Rightarrow> Ready (Err e))"

text \<open>
  \<open>write_all\<close> on a stream, given its outcome: everything was written, or an error came after some of
  the bytes. The bytes that went out are returned.
\<close>

type_synonym write_outcome = "(nat \<times> io_error) option"

fun stream_write_all :: "bytes \<Rightarrow> write_outcome \<Rightarrow> (unit, io_error) result \<times> bytes" where
  "stream_write_all data None = (Ok (), data)"
| "stream_write_all data (Some (n, e)) = (Err e, take n data)"

section \<open>Big-endian 16-bit integers\<close>

definition put_u16 :: "u16 \<Rightarrow> bytes" where
  "put_u16 w = [ucast (drop_bit 8 w), ucast w]"

definition u16_from_be_bytes :: "u8 \<Rightarrow> u8 \<Rightarrow> u16" where
  "u16_from_be_bytes a b = (push_bit 8 (ucast a)) OR (ucast b)"

lemma length_put_u16 [simp]: "length (put_u16 w) = 2"
  by (simp add: put_u16_def)

lemma u16_from_be_bytes_put_u16:
  "u16_from_be_bytes (ucast (drop_bit 8 w)) (ucast w) = w"
  unfolding u16_from_be_bytes_def
  by (rule bit_word_eqI) (auto simp: bit_simps)

section \<open>Decimal ports\<close>

text \<open>\<open>Display\<close> for \<open>u16\<close>: the decimal digits without leading zeros.\<close>

fun decimal :: "nat \<Rightarrow> bytes" where
  "decimal n = (if n < 10 then [48 + of_nat n] else decimal (n div 10) @ [48 + of_nat (n mod 10)])"

declare decimal.simps [simp del]

definition fmt_u16 :: "u16 \<Rightarrow> bytes" where
  "fmt_u16 p = decimal (unat p)"

text \<open>
  \<open>FromStr\<close> for \<open>u16\<close>: an optional plus sign, then at least one digit; every accumulated value is
  checked against the width.
\<close>

fun parse_digits :: "nat \<Rightarrow> bytes \<Rightarrow> nat option" where
  "parse_digits acc [] = Some acc"
| "parse_digits acc (b # bs) =
     (if 48 \<le> b \<and> b \<le> 57
      then (let acc' = acc * 10 + unat (b - 48) in
            if acc' < 2 ^ 16 then parse_digits acc' bs else None)
      else None)"

definition u16_from_str :: "bytes \<Rightarrow> u16 option" where
  "u16_from_str s =
     (case s of
        [] \<Rightarrow> None
      | b # bs \<Rightarrow>
          map_option of_nat
            (if b = 43 then (if bs = [] then None else parse_digits 0 bs) else parse_digits 0 s))"

lemma parse_digits_append:
  "parse_digits acc (xs @ ys) = Option.bind (parse_digits acc xs) (\<lambda>a. parse_digits a ys)"
  by (induction acc xs rule: parse_digits.induct) (auto simp: Let_def)

lemma digit_byte:
  assumes "d < 10"
  shows "48 \<le> (48 + of_nat d :: u8)" and "(48 + of_nat d :: u8) \<le> 57"
    and "unat (of_nat d :: u8) = d"
proof -
  have d: "unat (of_nat d :: u8) = d"
    using assms by (simp add: unat_of_nat)
  have "unat (48 + of_nat d :: u8) = 48 + d"
    using assms d by (simp add: unat_word_ariths)
  with assms show "48 \<le> (48 + of_nat d :: u8)" and "(48 + of_nat d :: u8) \<le> 57"
    by (simp_all add: word_le_nat_alt)
  show "unat (of_nat d :: u8) = d"
    by (rule d)
qed

lemma decimal_nonempty [simp]: "decimal n \<noteq> []"
  by (subst decimal.simps) simp

lemma decimal_digits: "b \<in> set (decimal n) \<Longrightarrow> 48 \<le> b \<and> b \<le> 57"
proof (induction n rule: decimal.induct)
  case (1 n)
  show ?case
  proof (cases "n < 10")
    case True
    with "1.prems" show ?thesis
      by (simp add: decimal.simps[of n] digit_byte Let_def)
  next
    case False
    with "1.prems" consider "b \<in> set (decimal (n div 10))" | "b = 48 + of_nat (n mod 10)"
      by (auto simp: decimal.simps[of n])
    then show ?thesis
      by cases (use False "1.IH" in \<open>simp_all add: digit_byte\<close>)
  qed
qed

lemma parse_digits_decimal: "n < 2 ^ 16 \<Longrightarrow> parse_digits 0 (decimal n) = Some n"
proof (induction n rule: decimal.induct)
  case (1 n)
  show ?case
  proof (cases "n < 10")
    case True
    then show ?thesis
      by (simp add: decimal.simps[of n] digit_byte Let_def)
  next
    case False
    have "n div 10 < 2 ^ 16"
      using "1.prems" by (simp add: div_less_dividend less_trans)
    with False "1.IH" have "parse_digits 0 (decimal (n div 10)) = Some (n div 10)"
      by simp
    moreover have "n div 10 * 10 + n mod 10 = n"
      by simp
    ultimately show ?thesis
      using False "1.prems" by (simp add: decimal.simps[of n] parse_digits_append digit_byte Let_def)
  qed
qed

lemma u16_from_str_fmt: "u16_from_str (fmt_u16 p) = Some p"
proof -
  obtain b bs where dec: "decimal (unat p) = b # bs"
    by (cases "decimal (unat p)") auto
  have "b \<noteq> 43"
    using decimal_digits[of b "unat p"] dec by (auto simp: word_le_nat_alt)
  moreover have "unat p < 2 ^ 16"
    using unsigned_less[of p, where ?'a = nat] by simp
  then have "parse_digits 0 (b # bs) = Some (unat p)"
    using parse_digits_decimal[of "unat p"] dec by simp
  ultimately show ?thesis
    unfolding u16_from_str_def fmt_u16_def dec by simp
qed

lemma length_decimal: "n < 10 ^ Suc k \<Longrightarrow> length (decimal n) \<le> Suc k"
proof (induction k arbitrary: n)
  case 0
  then show ?case by (simp add: decimal.simps[of n])
next
  case (Suc k)
  then have "n div 10 < 10 ^ Suc k" by (simp add: less_mult_imp_div_less)
  with Suc.IH have "length (decimal (n div 10)) \<le> Suc k" .
  then show ?case by (simp add: decimal.simps[of n])
qed

lemma length_fmt_u16: "length (fmt_u16 p) \<le> 5"
proof -
  have "unat p < 2 ^ 16"
    using unsigned_less[of p, where ?'a = nat] by simp
  then have "unat p < 10 ^ Suc 4" by simp
  then show ?thesis
    unfolding fmt_u16_def using length_decimal[of "unat p" 4] by simp
qed

section \<open>UTF-8\<close>

text \<open>The well-formed byte sequences of \<open>str::from_utf8\<close>.\<close>

definition utf8_cont :: "u8 \<Rightarrow> bool" where
  "utf8_cont b \<longleftrightarrow> 128 \<le> b \<and> b \<le> 191"

fun utf8_valid :: "bytes \<Rightarrow> bool" where
  "utf8_valid [] = True"
| "utf8_valid (a # as) =
     (if a < 128 then utf8_valid as
      else (case as of
        [] \<Rightarrow> False
      | b # bs \<Rightarrow>
          if 194 \<le> a \<and> a \<le> 223 then utf8_cont b \<and> utf8_valid bs
          else (case bs of
            [] \<Rightarrow> False
          | c # cs \<Rightarrow>
              if a = 224 then 160 \<le> b \<and> b \<le> 191 \<and> utf8_cont c \<and> utf8_valid cs
              else if a = 237 then 128 \<le> b \<and> b \<le> 159 \<and> utf8_cont c \<and> utf8_valid cs
              else if 225 \<le> a \<and> a \<le> 239 then utf8_cont b \<and> utf8_cont c \<and> utf8_valid cs
              else (case cs of
                [] \<Rightarrow> False
              | d # ds \<Rightarrow>
                  (if a = 240 then 144 \<le> b \<and> b \<le> 191
                   else if a = 244 then 128 \<le> b \<and> b \<le> 143
                   else 241 \<le> a \<and> a \<le> 243 \<and> utf8_cont b)
                  \<and> utf8_cont c \<and> utf8_cont d \<and> utf8_valid ds))))"

lemma utf8_valid_ascii: "(\<And>b. b \<in> set bs \<Longrightarrow> b < 128) \<Longrightarrow> utf8_valid bs"
  by (induction bs) auto

lemma utf8_valid_fmt_u16: "utf8_valid (fmt_u16 p)"
proof (rule utf8_valid_ascii)
  fix b
  assume "b \<in> set (fmt_u16 p)"
  then have "b \<le> 57" by (simp add: fmt_u16_def decimal_digits)
  then show "b < 128" by (rule le_less_trans) simp
qed

end
