(* ===== verification/Protocol.thy ===== *)
theory Protocol
  imports Relay_Prelude
begin

text \<open>
  The messages relays exchange, as \<open>protocol/src/minecraft-relay.proto\<close> declares them. Integers and
  byte fields carry their values; an absent \<open>oneof\<close> is \<open>None\<close>, which is also what an empty frame
  decodes to. \<open>protocol/src/lib.rs\<close> gives the messages the three operations of their codec, which the
  build generates and which is a parameter.
\<close>

record relay_game =
  rgm_id :: u64
  rgm_motd :: bytes
  rgm_hops :: u64

record relay_connect =
  rc_game_id :: u64
  rc_connection_id :: u64
  rc_hops :: u64

record relay_data =
  rd_connection_id :: u64
  rd_connection_local :: bool
  rd_data :: bytes

record relay_close_connection =
  rcc_connection_id :: u64
  rcc_connection_local :: bool

datatype relay_inner =
    Game relay_game
  | Connect relay_connect
  | Data relay_data
  | CloseConnection relay_close_connection

record relay_message =
  inner :: "relay_inner option"

text \<open>The number of forwarding hops a message carries, where it carries one.\<close>

definition message_hops :: "relay_message \<Rightarrow> u64 option" where
  "message_hops m =
     (case inner m of
        Some (Game g) \<Rightarrow> Some (rgm_hops g)
      | Some (Connect c) \<Rightarrow> Some (rc_hops c)
      | _ \<Rightarrow> None)"

section \<open>Encoding and decoding\<close>

text \<open>
  \<open>prost::Message\<close> for \<open>RelayMessage\<close>: the length of the encoding, the encoding written to a buffer
  of the given size (\<open>None\<close> when it does not fit) and decoding.
\<close>

record 'd codec =
  encoded_len :: "relay_message \<Rightarrow> nat"
  encode_msg :: "relay_message \<Rightarrow> nat \<Rightarrow> bytes option"
  decode_msg :: "bytes \<Rightarrow> (relay_message, 'd) result"

text \<open>The methods of \<open>RelayMessage\<close> hand each call on to the codec.\<close>

definition RelayMessage_decode :: "'d codec \<Rightarrow> bytes \<Rightarrow> (relay_message, 'd) result" where
  [simp]: "RelayMessage_decode C data = decode_msg C data"

definition RelayMessage_encoded_len :: "'d codec \<Rightarrow> relay_message \<Rightarrow> nat" where
  [simp]: "RelayMessage_encoded_len C m = encoded_len C m"

definition RelayMessage_encode :: "'d codec \<Rightarrow> relay_message \<Rightarrow> nat \<Rightarrow> bytes option" where
  [simp]: "RelayMessage_encode C m buf_len = encode_msg C m buf_len"

end
