(* ===== verification/Id_Map.thy ===== *)
theory Id_Map
  imports Relay_Prelude
begin

text \<open>
  The identifier map of \<open>relay/src/id_map.rs\<close>: a hash map whose keys are handed out from a 64-bit
  counter. The counter's \<open>+= 1\<close> wraps, as in a release build, so every law about fresh keys states
  how many keys are still to come before it does. The locale \<open>id_source\<close> is what the relay relies
  on; it is interpreted on the map's own operations.
\<close>

record ('k, 'v) id_map =
  im_map :: "'k \<rightharpoonup> 'v"
  next_key :: u64

definition id_map_default :: "('k, 'v) id_map" where
  "id_map_default = \<lparr>im_map = Map.empty, next_key = 0\<rparr>"

text \<open>\<open>from\<close> is the key type's \<open>From<u64>\<close>.\<close>

definition next_id :: "(u64 \<Rightarrow> 'k) \<Rightarrow> ('k, 'v) id_map \<Rightarrow> 'k \<times> ('k, 'v) id_map" where
  "next_id from m = (from (next_key m), m\<lparr>next_key := next_key m + 1\<rparr>)"

definition add :: "(u64 \<Rightarrow> 'k) \<Rightarrow> 'v \<Rightarrow> ('k, 'v) id_map \<Rightarrow> 'k \<times> ('k, 'v) id_map" where
  "add from value m =
     (let (key, m') = next_id from m
      in (key, m'\<lparr>im_map := (im_map m')(key \<mapsto> value)\<rparr>))"

lemma fst_next_id [simp]: "fst (next_id from m) = from (next_key m)"
  and snd_next_id [simp]: "snd (next_id from m) = m\<lparr>next_key := next_key m + 1\<rparr>"
  by (simp_all add: next_id_def)

lemma fst_add [simp]: "fst (add from v m) = from (next_key m)"
  and snd_add [simp]: "snd (add from v m) =
    m\<lparr>next_key := next_key m + 1, im_map := (im_map m)(from (next_key m) \<mapsto> v)\<rparr>"
  by (simp_all add: add_def next_id_def)

text \<open>Storing a list of values, one after the other, with a given store operation.\<close>

fun stores :: "('v \<Rightarrow> 'm \<Rightarrow> 'k \<times> 'm) \<Rightarrow> 'v list \<Rightarrow> 'm \<Rightarrow> 'k list \<times> 'm" where
  "stores put [] m = ([], m)"
| "stores put (v # vs) m =
     (fst (put v m) # fst (stores put vs (snd (put v m))), snd (stores put vs (snd (put v m))))"

section \<open>The interface\<close>

locale id_source =
  fixes lookup :: "'m \<Rightarrow> 'k \<rightharpoonup> 'v"
    and fresh :: "'m \<Rightarrow> 'k \<times> 'm"
    and store :: "'v \<Rightarrow> 'm \<Rightarrow> 'k \<times> 'm"
    and issued :: "'m \<Rightarrow> 'k set"
    and room :: "'m \<Rightarrow> nat \<Rightarrow> bool"
  assumes fresh_new: "room m (Suc n) \<Longrightarrow> fst (fresh m) \<notin> issued m"
    and fresh_issued: "room m (Suc n) \<Longrightarrow> issued (snd (fresh m)) = insert (fst (fresh m)) (issued m)"
    and fresh_lookup: "lookup (snd (fresh m)) = lookup m"
    and fresh_room: "room m (Suc n) \<Longrightarrow> room (snd (fresh m)) n"
    and store_key: "fst (store v m) = fst (fresh m)"
    and store_lookup: "lookup (snd (store v m)) = (lookup m)(fst (fresh m) \<mapsto> v)"
    and store_issued: "issued (snd (store v m)) = issued (snd (fresh m))"
    and store_room: "room (snd (store v m)) n = room (snd (fresh m)) n"
begin

definition sound :: "'m \<Rightarrow> bool" where
  "sound m \<longleftrightarrow> dom (lookup m) \<subseteq> issued m"

lemma sound_new: "sound m \<Longrightarrow> room m (Suc n) \<Longrightarrow> lookup m (fst (fresh m)) = None"
  unfolding sound_def using fresh_new by blast

lemma sound_fresh: "sound m \<Longrightarrow> room m (Suc n) \<Longrightarrow> sound (snd (fresh m))"
  unfolding sound_def using fresh_issued fresh_lookup by fastforce

lemma sound_store: "sound m \<Longrightarrow> room m (Suc n) \<Longrightarrow> sound (snd (store v m))"
  unfolding sound_def using fresh_issued store_lookup store_issued by fastforce

lemma stores_ok:
  assumes "sound m" and "room m (length vs)"
  shows "length (fst (stores store vs m)) = length vs"
    and "distinct (fst (stores store vs m))"
    and "set (fst (stores store vs m)) \<inter> issued m = {}"
    and "lookup (snd (stores store vs m)) = (lookup m)(fst (stores store vs m) [\<mapsto>] vs)"
proof -
  have "length (fst (stores store vs m)) = length vs \<and> distinct (fst (stores store vs m)) \<and>
      set (fst (stores store vs m)) \<inter> issued m = {} \<and>
      lookup (snd (stores store vs m)) = (lookup m)(fst (stores store vs m) [\<mapsto>] vs)"
    using assms
  proof (induction vs arbitrary: m)
    case Nil
    then show ?case by simp
  next
    case (Cons v vs)
    let ?k = "fst (fresh m)" and ?m = "snd (store v m)"
    have room: "room m (Suc (length vs))" using Cons.prems(2) by simp
    have "sound ?m" using sound_store[OF Cons.prems(1) room] .
    moreover have "room ?m (length vs)" using room by (simp add: store_room fresh_room)
    ultimately have IH: "length (fst (stores store vs ?m)) = length vs"
      "distinct (fst (stores store vs ?m))" "set (fst (stores store vs ?m)) \<inter> issued ?m = {}"
      "lookup (snd (stores store vs ?m)) = (lookup ?m)(fst (stores store vs ?m) [\<mapsto>] vs)"
      using Cons.IH by blast+
    have iss: "issued ?m = insert ?k (issued m)" using room by (simp add: store_issued fresh_issued)
    have st: "stores store (v # vs) m = (?k # fst (stores store vs ?m), snd (stores store vs ?m))"
      by (simp add: store_key)
    show ?case
      using IH iss fresh_new[OF room] unfolding st by (auto simp: store_lookup)
  qed
  then show "length (fst (stores store vs m)) = length vs" "distinct (fst (stores store vs m))"
    "set (fst (stores store vs m)) \<inter> issued m = {}"
    "lookup (snd (stores store vs m)) = (lookup m)(fst (stores store vs m) [\<mapsto>] vs)"
    by blast+
qed

lemma stores_sound:
  "sound m \<Longrightarrow> room m (length vs) \<Longrightarrow> sound (snd (stores store vs m))"
proof (induction vs arbitrary: m)
  case (Cons v vs)
  have room: "room m (Suc (length vs))" using Cons.prems(2) by simp
  then have "room (snd (store v m)) (length vs)" by (simp add: store_room fresh_room)
  with Cons.IH[OF sound_store[OF Cons.prems(1) room]] show ?case by simp
qed simp

end

section \<open>The map provides the interface\<close>

text \<open>
  For a key type that wraps the counter's values one to one, the keys handed out so far are those
  below the counter, and there is room for \<open>n\<close> more keys as long as the counter does not wrap.
\<close>

definition keys_below :: "(u64 \<Rightarrow> 'k) \<Rightarrow> ('k, 'v) id_map \<Rightarrow> 'k set" where
  "keys_below from m = from ` {i. i < next_key m}"

definition keys_left :: "('k, 'v) id_map \<Rightarrow> nat \<Rightarrow> bool" where
  "keys_left m n \<longleftrightarrow> unat (next_key m) + n < 2 ^ 64"

lemma unat_next_key:
  assumes "keys_left m (Suc n)"
  shows "unat (next_key m + 1) = unat (next_key m) + 1"
proof -
  have "unat (next_key m) + unat (1 :: u64) < 2 ^ LENGTH(64)"
    using assms by (simp add: keys_left_def)
  then show ?thesis
    by (metis unat_1 unat_add_lem)
qed

lemma less_next_key:
  assumes "keys_left m (Suc n)"
  shows "i < next_key m + 1 \<longleftrightarrow> i < next_key m \<or> i = next_key m"
  using unat_next_key[OF assms] by (auto simp: word_less_nat_alt less_Suc_eq word_unat_eq_iff)

lemma id_source_id_map:
  assumes "inj from"
  shows "id_source im_map (next_id from) (add from) (keys_below from) keys_left"
proof
  fix m :: "('a, 'b) id_map" and n
  assume room: "keys_left m (Suc n)"
  show "fst (next_id from m) \<notin> keys_below from m"
    using assms by (auto simp: keys_below_def inj_on_def)
  show "keys_below from (snd (next_id from m)) = insert (fst (next_id from m)) (keys_below from m)"
    using less_next_key[OF room] by (auto simp: keys_below_def)
  show "keys_left (snd (next_id from m)) n"
    using room unat_next_key[OF room] by (simp add: keys_left_def)
qed (simp_all add: keys_below_def keys_left_def)

interpretation u64_ids: id_source im_map "next_id (\<lambda>i. i)" "add (\<lambda>i. i)" "keys_below (\<lambda>i. i)" keys_left
  by (rule id_source_id_map) simp

lemma keys_below_default [simp]: "keys_below from id_map_default = {}"
  by (simp add: keys_below_def id_map_default_def)

text \<open>
  C31: adding values to an identifier map. When the keys in the map were handed out by its counter and the
  counter has room for the values, adding them one after the other hands out keys that are pairwise
  distinct and were never handed out before, the values are found under them in order, every other entry
  is as it was, and the keys in the map are still among those handed out.
\<close>

theorem id_map_adds:
  assumes "inj from" "dom (im_map m) \<subseteq> keys_below from m" "keys_left m (length vs)"
    and "stores (add from) vs m = (ks, m')"
  shows "length ks = length vs \<and> distinct ks \<and> set ks \<inter> keys_below from m = {}
    \<and> (\<forall>j < length vs. im_map m' (ks ! j) = Some (vs ! j))
    \<and> (\<forall>k. k \<notin> set ks \<longrightarrow> im_map m' k = im_map m k)
    \<and> dom (im_map m') \<subseteq> keys_below from m'"
proof -
  note src = id_source_id_map[OF assms(1)]
  have sound: "id_source.sound im_map (keys_below from) m"
    using assms(2) by (simp add: id_source.sound_def[OF src])
  note ok = id_source.stores_ok[OF src sound assms(3), unfolded assms(4), simplified]
  have "im_map m' (ks ! j) = Some (vs ! j)" if "j < length vs" for j
    using ok(1,2,4) that by (simp add: map_upds_nth)
  moreover have "im_map m' k = im_map m k" if "k \<notin> set ks" for k
    using ok(4) that by simp
  moreover have "dom (im_map m') \<subseteq> keys_below from m'"
    using id_source.stores_sound[OF src sound assms(3)] assms(4) by (simp add: id_source.sound_def[OF src])
  ultimately show ?thesis using ok by simp
qed

theorem id_map_adds_witness:
  "im_map (snd (stores (add (\<lambda>i. i)) [True, False] \<lparr>im_map = [3 \<mapsto> True], next_key = 5\<rparr>)) 3 = Some True
    \<and> distinct (fst (stores (add (\<lambda>i. i)) [True, False] \<lparr>im_map = [3 \<mapsto> True], next_key = 5\<rparr>))
    \<and> fst (stores (add (\<lambda>i. i)) [True, False] \<lparr>im_map = [3 \<mapsto> True], next_key = 5\<rparr>) = [5, 6]"
proof -
  let ?m = "\<lparr>im_map = [3 \<mapsto> True], next_key = 5\<rparr> :: (u64, bool) id_map"
  obtain ks m' where s: "stores (add (\<lambda>i. i)) [True, False] ?m = (ks, m')" by fastforce
  then have ks: "ks = [5, 6]" by simp
  have "dom (im_map ?m) \<subseteq> keys_below (\<lambda>i. i) ?m" "keys_left ?m (length [True, False])"
    by (auto simp: keys_below_def keys_left_def)
  from id_map_adds[OF _ this s] show ?thesis unfolding s by (auto simp: ks)
qed

end
