(* ===== verification/Sockets.thy ===== *)
theory Sockets
  imports Rust_Std
begin

text \<open>
  Opening sockets. A constructor of the program makes a few calls to the operating system, one after
  the other, and gives up at the first that fails. The operating system is a parameter: what it
  answers to each call. A socket is identified with the calls that were made on it.
\<close>

section \<open>Results in sequence\<close>

text \<open>The operator \<open>?\<close>: go on with the value, or return the error.\<close>

definition and_then :: "('a, 'e) result \<Rightarrow> ('a \<Rightarrow> ('b, 'e) result) \<Rightarrow> ('b, 'e) result" where
  "and_then r f = (case r of Inl e \<Rightarrow> Err e | Inr x \<Rightarrow> f x)"

lemma and_then_simps [simp]:
  "and_then (Ok x) f = f x"
  "and_then (Err e) f = Err e"
  by (simp_all add: and_then_def)

lemma and_then_eq_Ok [simp]: "and_then r f = Ok y \<longleftrightarrow> (\<exists>x. r = Ok x \<and> f x = Ok y)"
  by (cases r) auto

lemma and_then_eq_Err: "and_then r f = Err e \<longleftrightarrow> r = Err e \<or> (\<exists>x. r = Ok x \<and> f x = Err e)"
  by (cases r) auto

lemma and_then_assoc: "and_then (and_then r f) g = and_then r (\<lambda>x. and_then (f x) g)"
  by (cases r) auto

section \<open>Calls on a socket\<close>

datatype sys_call =
    UdpSocket
  | SetReuseAddress bool
  | SetReusePort bool
  | Bind socket_addr
  | JoinMulticastV4 "32 word" "32 word"
  | SetMulticastLoopV4 bool
  | TcpListen socket_addr
  | SetNodelay bool
  | LocalAddr
  | PeerAddr

type_synonym socket = "sys_call list"

text \<open>
  What the operating system answers: whether a call on a socket succeeds, and the addresses of the two
  ends of a socket.
\<close>

record os =
  sys :: "sys_call \<Rightarrow> (unit, io_error) result"
  os_local_addr :: socket_addr
  os_peer_addr :: socket_addr

definition sys_on :: "os \<Rightarrow> sys_call \<Rightarrow> socket \<Rightarrow> (socket, io_error) result" where
  "sys_on os c socket = and_then (sys os c) (\<lambda>_. Ok (socket @ [c]))"

definition local_addr_of :: "os \<Rightarrow> socket \<Rightarrow> (socket_addr, io_error) result" where
  "local_addr_of os socket = and_then (sys os LocalAddr) (\<lambda>_. Ok (os_local_addr os))"

definition peer_addr_of :: "os \<Rightarrow> socket \<Rightarrow> (socket_addr, io_error) result" where
  "peer_addr_of os socket = and_then (sys os PeerAddr) (\<lambda>_. Ok (os_peer_addr os))"

text \<open>
  A reference for a chain of calls: the error of the first call that fails, if there is one.
\<close>

fun first_error :: "os \<Rightarrow> sys_call list \<Rightarrow> io_error option" where
  "first_error os [] = None"
| "first_error os (c # cs) = (case sys os c of Inl e \<Rightarrow> Some e | Inr _ \<Rightarrow> first_error os cs)"

definition try_all :: "os \<Rightarrow> sys_call list \<Rightarrow> 'a \<Rightarrow> ('a, io_error) result" where
  "try_all os cs x = (case first_error os cs of Some e \<Rightarrow> Err e | None \<Rightarrow> Ok x)"

lemma try_all_Nil [simp]: "try_all os [] x = Ok x"
  by (simp add: try_all_def)

lemma try_all_Cons: "try_all os (c # cs) x = and_then (sys os c) (\<lambda>_. try_all os cs x)"
  by (cases "sys os c") (simp_all add: try_all_def)

lemma first_error_append:
  "first_error os (cs @ ds) = (case first_error os cs of Some e \<Rightarrow> Some e | None \<Rightarrow> first_error os ds)"
  by (induction cs) (simp_all split: sum.split)

lemmas try_all_steps = try_all_Cons sys_on_def local_addr_of_def peer_addr_of_def and_then_assoc

section \<open>Connecting with a time limit\<close>

text \<open>
  \<open>TcpStream::connect(addr).or(timeout)\<close>: the outcome of connecting when it comes before the timer,
  and the error of the timer otherwise.
\<close>

definition or_timeout :: "('a, io_error) result option \<Rightarrow> ('a, io_error) result" where
  "or_timeout connected = (case connected of Some r \<Rightarrow> r | None \<Rightarrow> Err TimedOut)"

lemma or_timeout_simps [simp]:
  "or_timeout (Some r) = r"
  "or_timeout None = Err TimedOut"
  by (simp_all add: or_timeout_def)

end
