(* ===== verification/Discovery.thy ===== *)
theory Discovery
  imports Sockets "HOL-Library.Sublist"
begin

text \<open>
  LAN discovery, \<open>relay/src/discovery.rs\<close>: the packet parser and encoder, the sender and the
  listener loop. The parser combinators come from the crate \<open>nom\<close> and the output buffers from the
  crate \<open>bytes\<close>; both are parameters of the model (the records \<open>nom\<close> and \<open>buf_mut\<close>), with their
  documented behaviour as the assumptions of the locales \<open>nom_parsers\<close> and \<open>buf_writer\<close>. The
  theorems show that the encoder and the parser are inverse to each other, which errors each of
  them returns, and how much of the datagram buffer the sender can need.
\<close>

section \<open>Packets and errors\<close>

record discovery_packet =
  dp_port :: u16
  dp_motd :: bytes

datatype 'e nom_err = Incomplete | Error 'e | Failure 'e

datatype 'e discovery_packet_parse_error =
    ParseError "'e nom_err"
  | InvalidPort bytes

datatype discovery_packet_encode_error =
    InvalidMotd bytes
  | BufferTooSmall

datatype discovery_send_error =
    EncodeError discovery_packet_encode_error
  | IoError io_error

datatype 'e discovery_listener_error =
    DL_Io io_error
  | DL_Returned 'e

definition PORT :: u16 where
  "PORT = 4445"

definition MULTICAST_GROUP :: "32 word" where
  "MULTICAST_GROUP = 224 * 2 ^ 24 + 2 * 2 ^ 8 + 60"

definition MAX_PACKET_SIZE :: nat where
  "MAX_PACKET_SIZE = 1500"

section \<open>Parsing\<close>

subsection \<open>The parser combinators\<close>

type_synonym ('a, 'e) iresult = "(bytes \<times> 'a, 'e nom_err) result"

record 'e nom =
  nom_char :: "u8 \<Rightarrow> bytes \<Rightarrow> (u8, 'e) iresult"
  nom_is_not :: "bytes \<Rightarrow> bytes \<Rightarrow> (bytes, 'e) iresult"
  nom_tag :: "bytes \<Rightarrow> bytes \<Rightarrow> (bytes, 'e) iresult"
  nom_take_until :: "bytes \<Rightarrow> bytes \<Rightarrow> (bytes, 'e) iresult"
  nom_delimited :: "(bytes \<Rightarrow> (u8, 'e) iresult) \<Rightarrow> (bytes \<Rightarrow> (bytes, 'e) iresult) \<Rightarrow>
    (bytes \<Rightarrow> (u8, 'e) iresult) \<Rightarrow> bytes \<Rightarrow> (bytes, 'e) iresult"
  nom_tuple3 :: "(bytes \<Rightarrow> (bytes, 'e) iresult) \<Rightarrow> (bytes \<Rightarrow> (bytes, 'e) iresult) \<Rightarrow>
    (bytes \<Rightarrow> (u8, 'e) iresult) \<Rightarrow> bytes \<Rightarrow> (bytes \<times> bytes \<times> u8, 'e) iresult"
  nom_fold_many0 :: "(bytes \<Rightarrow> (bytes \<times> bytes, 'e) iresult) \<Rightarrow> (bytes \<rightharpoonup> bytes) \<Rightarrow>
    ((bytes \<rightharpoonup> bytes) \<Rightarrow> bytes \<times> bytes \<Rightarrow> (bytes \<rightharpoonup> bytes)) \<Rightarrow> bytes \<Rightarrow> (bytes \<rightharpoonup> bytes, 'e) iresult"

text \<open>The position of the first occurrence of a pattern.\<close>

fun find_sub :: "bytes \<Rightarrow> bytes \<Rightarrow> nat option" where
  "find_sub t [] = (if t = [] then Some 0 else None)"
| "find_sub t (x # xs) =
     (if take (length t) (x # xs) = t then Some 0 else map_option Suc (find_sub t xs))"

subsection \<open>The packet parser\<close>

definition element :: "'e nom \<Rightarrow> bytes \<Rightarrow> (bytes \<times> bytes, 'e) iresult" where
  "element N input =
     (case nom_delimited N (nom_char N 91) (nom_is_not N (ascii '']'')) (nom_char N 93) input of
        Inl e \<Rightarrow> Err e
      | Inr (input, name) \<Rightarrow>
          (case nom_take_until N (ascii ''[/'') input of
             Inl e \<Rightarrow> Err e
           | Inr (input, data) \<Rightarrow>
               (case nom_tuple3 N (nom_tag N (ascii ''[/'')) (nom_tag N name) (nom_char N 93) input of
                  Inl e \<Rightarrow> Err e
                | Inr (input, _) \<Rightarrow> Ok (input, (name, data)))))"

definition elements :: "'e nom \<Rightarrow> bytes \<Rightarrow> (bytes \<rightharpoonup> bytes, 'e) iresult" where
  "elements N input = nom_fold_many0 N (element N) Map.empty (\<lambda>m (k, v). m(k \<mapsto> v)) input"

definition parse :: "'e nom \<Rightarrow> bytes \<Rightarrow> (discovery_packet, 'e discovery_packet_parse_error) result" where
  "parse N data =
     (case elements N data of
        Inl e \<Rightarrow> Err (ParseError e)
      | Inr (_, m) \<Rightarrow>
          (case m (ascii ''AD'') of
             None \<Rightarrow> Err (InvalidPort [])
           | Some port_data \<Rightarrow>
               (if \<not> utf8_valid port_data then Err (InvalidPort port_data)
                else case u16_from_str port_data of
                       None \<Rightarrow> Err (InvalidPort port_data)
                     | Some port \<Rightarrow>
                         (let motd = (case m (ascii ''MOTD'') of Some motd \<Rightarrow> motd | None \<Rightarrow> [])
                          in Ok \<lparr>dp_port = port, dp_motd = motd\<rparr>))))"

section \<open>Encoding\<close>

subsection \<open>Output buffers\<close>

text \<open>
  The operations of \<open>bytes::BufMut\<close> the encoder calls: the free space, \<open>put_slice\<close> (\<open>None\<close> when it
  panics for lack of space) and \<open>write\<close> of the adapter \<open>writer()\<close>, which returns how many bytes it
  took.
\<close>

record 'b buf_mut =
  remaining_mut :: "'b \<Rightarrow> nat"
  put_slice :: "'b \<Rightarrow> bytes \<Rightarrow> 'b option"
  writer_write :: "'b \<Rightarrow> bytes \<Rightarrow> nat \<times> 'b"

text \<open>\<open>std::io::Write::write_all\<close>, and \<open>write!\<close>, which passes it the pieces of the format string.\<close>

function write_all :: "'b buf_mut \<Rightarrow> 'b \<Rightarrow> bytes \<Rightarrow> (unit, io_error) result \<times> 'b" where
  "write_all B b data =
     (if data = [] then (Ok (), b)
      else let (n, b') = writer_write B b data in
           if n = 0 then (Err WriteZero, b') else write_all B b' (drop n data))"
  by pat_completeness auto
termination
  by (relation "measure (\<lambda>(B, b, data). length data)") auto

declare write_all.simps [simp del]

fun write_pieces :: "'b buf_mut \<Rightarrow> 'b \<Rightarrow> bytes list \<Rightarrow> (unit, io_error) result \<times> 'b" where
  "write_pieces B b [] = (Ok (), b)"
| "write_pieces B b (p # ps) =
     (case write_all B b p of
        (Inl e, b') \<Rightarrow> (Err e, b')
      | (Inr _, b') \<Rightarrow> write_pieces B b' ps)"

subsection \<open>The packet encoder\<close>

definition encode ::
  "'b buf_mut \<Rightarrow> discovery_packet \<Rightarrow> 'b \<Rightarrow> ((unit, discovery_packet_encode_error) result \<times> 'b) option"
where
  "encode B packet buf =
     (if 91 \<in> set (dp_motd packet) \<or> length (dp_motd packet) > 256
      then Some (Err (InvalidMotd (dp_motd packet)), buf)
      else
        (case write_pieces B buf [ascii ''[MOTD]''] of
           (Inl _, buf) \<Rightarrow> Some (Err BufferTooSmall, buf)
         | (Inr _, buf) \<Rightarrow>
             (if remaining_mut B buf < length (dp_motd packet) then Some (Err BufferTooSmall, buf)
              else
                (case put_slice B buf (dp_motd packet) of
                   None \<Rightarrow> None
                 | Some buf \<Rightarrow>
                     (case write_pieces B buf [ascii ''[/MOTD][AD]'', fmt_u16 (dp_port packet), ascii ''[/AD]''] of
                        (Inl _, buf) \<Rightarrow> Some (Err BufferTooSmall, buf)
                      | (Inr _, buf) \<Rightarrow> Some (Ok (), buf))))))"

subsection \<open>The sender\<close>

text \<open>
  The sender is a socket on any port whose multicast datagrams come back to this host.
\<close>

datatype discovery_sender = DiscoverySender (ds_socket: socket)

definition DiscoverySender_new :: "os \<Rightarrow> (discovery_sender, io_error) result" where
  "DiscoverySender_new os =
     and_then (sys_on os (Bind (V4 0 0)) []) (\<lambda>socket.
     and_then (sys_on os (SetMulticastLoopV4 True) socket) (\<lambda>socket.
     Ok (DiscoverySender socket)))"

definition DiscoverySender_local_addr :: "os \<Rightarrow> discovery_sender \<Rightarrow> (socket_addr, io_error) result" where
  "DiscoverySender_local_addr os sender = local_addr_of os (ds_socket sender)"

text \<open>
  A \<open>&mut [u8]\<close> that moves along an array as it is written: the bytes behind it and the bytes it
  still covers. Together they are the array.
\<close>

record slice_buf =
  sb_done :: bytes
  sb_unused :: bytes

text \<open>\<open>send_to\<close> is the outcome of the socket for a datagram; the sent datagrams are returned.\<close>

definition DiscoverySender_send ::
  "slice_buf buf_mut \<Rightarrow> (bytes \<Rightarrow> (nat, io_error) result) \<Rightarrow> discovery_packet \<Rightarrow>
    ((unit, discovery_send_error) result \<times> bytes list) option"
where
  "DiscoverySender_send B send_to packet =
     (let data_buf_unused = \<lparr>sb_done = [], sb_unused = replicate 1500 0\<rparr> in
      case encode B packet data_buf_unused of
        None \<Rightarrow> None
      | Some (Inl e, _) \<Rightarrow> Some (Err (EncodeError e), [])
      | Some (Inr _, data_buf_unused) \<Rightarrow>
          (let data_buf = sb_done data_buf_unused @ sb_unused data_buf_unused;
               data = take (length data_buf - length (sb_unused data_buf_unused)) data_buf
           in case send_to data of
                Inl e \<Rightarrow> Some (Err (IoError e), [])
              | Inr _ \<Rightarrow> Some (Ok (), [data])))"

section \<open>The listener\<close>

datatype discovery_listener = DiscoveryListener (dl_socket: socket)

text \<open>
  \<open>DiscoveryListener::new\<close>, on an Apple system or on another one, where the port can be shared with
  other programs without a call of its own.
\<close>

definition DiscoveryListener_new :: "bool \<Rightarrow> os \<Rightarrow> (discovery_listener, io_error) result" where
  "DiscoveryListener_new apple os =
     and_then (sys_on os UdpSocket []) (\<lambda>socket.
     and_then (sys_on os (SetReuseAddress True) socket) (\<lambda>socket.
     and_then (if apple then sys_on os (SetReusePort True) socket else Ok socket) (\<lambda>socket.
     and_then (sys_on os (Bind (V4 0 PORT)) socket) (\<lambda>socket.
     and_then (sys_on os (JoinMulticastV4 MULTICAST_GROUP 0) socket) (\<lambda>socket.
     Ok (DiscoveryListener socket))))))"

text \<open>
  The loop of \<open>DiscoveryListener::run\<close> over the outcomes of \<open>recv_from\<close>, whose buffer keeps at most
  \<open>MAX_PACKET_SIZE\<close> bytes of a datagram. The result is \<open>None\<close> while the loop waits for more, and what
  it has not received is returned with it.
\<close>

fun DiscoveryListener_run ::
  "'n nom \<Rightarrow> (socket_addr \<Rightarrow> discovery_packet \<Rightarrow> 's \<Rightarrow> (unit, 'e) result \<times> 's) \<Rightarrow>
    (bytes \<times> socket_addr, io_error) result list \<Rightarrow> 's \<Rightarrow>
    'e discovery_listener_error option \<times> (bytes \<times> socket_addr, io_error) result list \<times> 's"
where
  "DiscoveryListener_run N callback [] s = (None, [], s)"
| "DiscoveryListener_run N callback (Inl e # rs) s = (Some (DL_Io e), rs, s)"
| "DiscoveryListener_run N callback (Inr (datagram, from) # rs) s =
     (case parse N (take MAX_PACKET_SIZE datagram) of
        Inr packet \<Rightarrow>
          (case callback from packet s of
             (Inl e, s') \<Rightarrow> (Some (DL_Returned e), rs, s')
           | (Inr _, s') \<Rightarrow> DiscoveryListener_run N callback rs s')
      | Inl _ \<Rightarrow> DiscoveryListener_run N callback rs s)"

section \<open>What the parser computes\<close>

text \<open>
  The documented behaviour of the combinators. An \<open>Error\<close> is recoverable and its content is left
  open; the parsers used here are the \<open>complete\<close> ones, which never ask for more input.
\<close>

locale nom_parsers =
  fixes N :: "'e nom"
  assumes char_hit: "nom_char N c (c # i) = Ok (i, c)"
    and char_miss: "b \<noteq> c \<Longrightarrow> \<exists>e. nom_char N c (b # i) = Err (Error e)"
    and char_end: "\<exists>e. nom_char N c [] = Err (Error e)"
    and is_not_hit: "takeWhile (\<lambda>b. b \<notin> set arr) i \<noteq> [] \<Longrightarrow>
      nom_is_not N arr i = Ok (dropWhile (\<lambda>b. b \<notin> set arr) i, takeWhile (\<lambda>b. b \<notin> set arr) i)"
    and is_not_miss: "takeWhile (\<lambda>b. b \<notin> set arr) i = [] \<Longrightarrow> \<exists>e. nom_is_not N arr i = Err (Error e)"
    and tag_hit: "take (length t) i = t \<Longrightarrow> nom_tag N t i = Ok (drop (length t) i, t)"
    and tag_miss: "take (length t) i \<noteq> t \<Longrightarrow> \<exists>e. nom_tag N t i = Err (Error e)"
    and take_until_hit: "find_sub t i = Some n \<Longrightarrow> nom_take_until N t i = Ok (drop n i, take n i)"
    and take_until_miss: "find_sub t i = None \<Longrightarrow> \<exists>e. nom_take_until N t i = Err (Error e)"
    and delimited: "nom_delimited N p q r i =
      (case p i of Inl e \<Rightarrow> Inl e | Inr (i, _) \<Rightarrow>
        (case q i of Inl e \<Rightarrow> Inl e | Inr (i, x) \<Rightarrow>
          (case r i of Inl e \<Rightarrow> Inl e | Inr (i, _) \<Rightarrow> Inr (i, x))))"
    and tuple3: "nom_tuple3 N p' q' r' i =
      (case p' i of Inl e \<Rightarrow> Inl e | Inr (i, x) \<Rightarrow>
        (case q' i of Inl e \<Rightarrow> Inl e | Inr (i, y) \<Rightarrow>
          (case r' i of Inl e \<Rightarrow> Inl e | Inr (i, z) \<Rightarrow> Inr (i, (x, y, z)))))"
    and fold_many0: "(\<And>i i' x. s i = Inr (i', x) \<Longrightarrow> suffix i' i) \<Longrightarrow> \<exists>e. nom_fold_many0 N s acc f i =
      (case s i of
         Inr (i', x) \<Rightarrow> if i' = i then Inl (Error e) else nom_fold_many0 N s (f acc x) f i'
       | Inl (Error _) \<Rightarrow> Inr (i, acc)
       | Inl e' \<Rightarrow> Inl e')"

text \<open>
  A direct definition of the grammar: an element is \<open>[name]data[/name]\<close>, its name is not empty and
  ends at the first \<open>]\<close>, its data ends at the first \<open>[/\<close>.
\<close>

definition split_element :: "bytes \<Rightarrow> (bytes \<times> bytes \<times> bytes) option" where
  "split_element i =
     (case i of
        [] \<Rightarrow> None
      | b # i1 \<Rightarrow>
          (let name = takeWhile (\<lambda>b. b \<noteq> 93) i1 in
           if b \<noteq> 91 \<or> name = [] then None
           else
             (case dropWhile (\<lambda>b. b \<noteq> 93) i1 of
                [] \<Rightarrow> None
              | _ # i3 \<Rightarrow>
                  (case find_sub (ascii ''[/'') i3 of
                     None \<Rightarrow> None
                   | Some n \<Rightarrow>
                       (let i4 = drop 2 (drop n i3) in
                        if take (length name) i4 \<noteq> name then None
                        else
                          (case drop (length name) i4 of
                             [] \<Rightarrow> None
                           | d # i5 \<Rightarrow> if d = 93 then Some (i5, name, take n i3) else None))))))"

lemma split_element_suffix:
  assumes "split_element i = Some (r, x)"
  shows "strict_suffix r i"
proof -
  obtain b i1 i2 m i3 where i: "i = b # i1" and i3: "dropWhile (\<lambda>b. b \<noteq> 93) i1 = i2 # i3"
    and r: "drop m i3 = 93 # r"
    using assms
    by (auto simp: split_element_def Let_def split: list.splits if_splits option.splits)
  have "strict_suffix r (93 # r)" by (simp add: strict_suffix_def suffix_Cons)
  also have "suffix (93 # r) i3" unfolding r[symmetric] by (rule suffix_drop)
  also have "suffix i3 (i2 # i3)" by (rule suffix_ConsI) simp
  also have "suffix (i2 # i3) i1" unfolding i3[symmetric] by (rule suffix_dropWhile)
  also have "suffix i1 i" unfolding i by (rule suffix_ConsI) simp
  finally show ?thesis .
qed

lemma split_element_shorter: "split_element i = Some (r, x) \<Longrightarrow> length r < length i"
  using split_element_suffix by (blast dest: suffix_length_less)

function split_elements :: "bytes \<Rightarrow> (bytes \<times> bytes) list \<times> bytes" where
  "split_elements i =
     (case split_element i of
        None \<Rightarrow> ([], i)
      | Some (r, x) \<Rightarrow> (x # fst (split_elements r), snd (split_elements r)))"
  by pat_completeness auto
termination
  by (relation "measure length") (auto simp: split_element_shorter)

declare split_elements.simps [simp del]

definition parse_spec :: "bytes \<Rightarrow> (discovery_packet, bytes) result" where
  "parse_spec data =
     (let m = map_of (rev (fst (split_elements data))) in
      case m (ascii ''AD'') of
        None \<Rightarrow> Err []
      | Some port_data \<Rightarrow>
          (case (if utf8_valid port_data then u16_from_str port_data else None) of
             None \<Rightarrow> Err port_data
           | Some port \<Rightarrow>
               Ok \<lparr>dp_port = port,
                   dp_motd = (case m (ascii ''MOTD'') of Some motd \<Rightarrow> motd | None \<Rightarrow> [])\<rparr>))"

lemma find_sub_take: "find_sub t i = Some n \<Longrightarrow> take (length t) (drop n i) = t"
  by (induction t i arbitrary: n rule: find_sub.induct) (auto split: if_splits)

lemma prefix_single: "prefix [c] xs \<longleftrightarrow> take (Suc 0) xs = [c]"
  by (cases xs) auto

lemmas close_simps = sublist_Cons_right prefix_single

lemma find_sub_print:
  "\<not> sublist [91, 47] data \<Longrightarrow> find_sub [91, 47] (data @ 91 # 47 # rest) = Some (length data)"
  by (induction data) (auto simp: close_simps take_Cons' split: if_splits)

lemma find_sub_before: "find_sub [91, 47] i = Some n \<Longrightarrow> \<not> sublist [91, 47] (take n i)"
proof (induction i arbitrary: n)
  case (Cons b i)
  then show ?case by (cases n; cases "n - 1") (auto simp: close_simps take_Cons' min_def split: if_splits)
qed (simp split: if_splits)

context nom_parsers
begin

lemma element_opening:
  "(\<exists>e. nom_delimited N (nom_char N 91) (nom_is_not N (ascii '']'')) (nom_char N 93) i = Err (Error e)
      \<and> split_element i = None)
   \<or> (\<exists>i1 i3. i = 91 # i1 \<and> takeWhile (\<lambda>b. b \<noteq> 93) i1 \<noteq> [] \<and> dropWhile (\<lambda>b. b \<noteq> 93) i1 = 93 # i3
      \<and> nom_delimited N (nom_char N 91) (nom_is_not N (ascii '']'')) (nom_char N 93) i
          = Ok (i3, takeWhile (\<lambda>b. b \<noteq> 93) i1))"
proof (cases i)
  case Nil
  with char_end[of 91] show ?thesis
    by (auto simp: delimited split_element_def)
next
  case (Cons b i1)
  consider "b \<noteq> 91" | "b = 91" "takeWhile (\<lambda>b. b \<noteq> 93) i1 = []"
    | "b = 91" "takeWhile (\<lambda>b. b \<noteq> 93) i1 \<noteq> []" by blast
  then show ?thesis
  proof cases
    case 1
    with Cons char_miss[of b 91 i1] show ?thesis
      by (auto simp: delimited split_element_def Let_def)
  next
    case 2
    with Cons is_not_miss[of "ascii '']''" i1] show ?thesis
      by (auto simp: delimited char_hit split_element_def Let_def)
  next
    case 3
    have hit: "nom_is_not N (ascii '']'') i1
        = Ok (dropWhile (\<lambda>b. b \<noteq> 93) i1, takeWhile (\<lambda>b. b \<noteq> 93) i1)"
      using is_not_hit[of "ascii '']''" i1] 3 by simp
    show ?thesis
    proof (cases "dropWhile (\<lambda>b. b \<noteq> 93) i1")
      case Nil
      with Cons 3 hit char_end[of 93] show ?thesis
        by (auto simp: delimited char_hit split_element_def Let_def simp del: dropWhile_eq_Nil_conv)
    next
      case (Cons c i3)
      then have "c = 93" by (simp add: dropWhile_eq_Cons_conv)
      with \<open>i = b # i1\<close> Cons 3 hit show ?thesis
        by (auto simp: delimited char_hit)
    qed
  qed
qed

lemma element_closing:
  assumes "find_sub (ascii ''[/'') i3 = Some n"
  defines "i4 \<equiv> drop 2 (drop n i3)"
  shows "(\<exists>e. nom_tuple3 N (nom_tag N (ascii ''[/'')) (nom_tag N name) (nom_char N 93) (drop n i3) = Err (Error e)
      \<and> (take (length name) i4 = name \<longrightarrow> (\<forall>i5. drop (length name) i4 \<noteq> 93 # i5)))
    \<or> (\<exists>i5 x. take (length name) i4 = name \<and> drop (length name) i4 = 93 # i5
      \<and> nom_tuple3 N (nom_tag N (ascii ''[/'')) (nom_tag N name) (nom_char N 93) (drop n i3) = Ok (i5, x))"
proof -
  have tag: "nom_tag N (ascii ''[/'') (drop n i3) = Ok (i4, ascii ''[/'')"
    using tag_hit[of "ascii ''[/''" "drop n i3"] find_sub_take[OF assms(1)] by (simp add: i4_def)
  show ?thesis
  proof (cases "take (length name) i4 = name")
    case False
    with tag_miss[of name i4] tag show ?thesis by (auto simp: tuple3)
  next
    case True
    note hit = tag_hit[OF True]
    show ?thesis
    proof (cases "drop (length name) i4")
      case Nil
      with True hit tag char_end[of 93] show ?thesis by (auto simp: tuple3)
    next
      case (Cons d i5)
      with True hit tag char_miss[of d 93 i5] char_hit[of 93 i5] show ?thesis
        by (cases "d = 93") (auto simp: tuple3)
    qed
  qed
qed

text \<open>An element is recognised exactly as the grammar says, and a failure is recoverable.\<close>

lemma element_spec:
  "\<exists>e. element N i = (case split_element i of None \<Rightarrow> Err (Error e) | Some (r, x) \<Rightarrow> Ok (r, x))"
  using element_opening[of i]
proof (elim disjE exE conjE)
  fix e
  assume "nom_delimited N (nom_char N 91) (nom_is_not N (ascii '']'')) (nom_char N 93) i = Err (Error e)"
    and "split_element i = None"
  then show ?thesis by (auto simp: element_def)
next
  fix i1 i3 :: bytes
  let ?name = "takeWhile (\<lambda>b. b \<noteq> 93) i1"
  assume i: "i = 91 # i1" and name: "?name \<noteq> []" and rest: "dropWhile (\<lambda>b. b \<noteq> 93) i1 = 93 # i3"
    and hit: "nom_delimited N (nom_char N 91) (nom_is_not N (ascii '']'')) (nom_char N 93) i = Ok (i3, ?name)"
  show ?thesis
  proof (cases "find_sub (ascii ''[/'') i3")
    case None
    with take_until_miss[OF None] i name rest hit show ?thesis
      by (auto simp: element_def split_element_def)
  next
    case (Some n)
    note until = take_until_hit[OF Some]
    from element_closing[OF Some, of ?name] show ?thesis
    proof (elim disjE exE conjE)
      fix e
      assume "nom_tuple3 N (nom_tag N (ascii ''[/'')) (nom_tag N ?name) (nom_char N 93) (drop n i3) = Err (Error e)"
        and "take (length ?name) (drop 2 (drop n i3)) = ?name
          \<longrightarrow> (\<forall>i5. drop (length ?name) (drop 2 (drop n i3)) \<noteq> 93 # i5)"
      moreover from this(2) i name rest Some have "split_element i = None"
        by (auto simp: split_element_def Let_def split: list.split)
      ultimately show ?thesis using hit until by (simp add: element_def)
    next
      fix i5 x
      assume "take (length ?name) (drop 2 (drop n i3)) = ?name"
        and "drop (length ?name) (drop 2 (drop n i3)) = 93 # i5"
        and "nom_tuple3 N (nom_tag N (ascii ''[/'')) (nom_tag N ?name) (nom_char N 93) (drop n i3) = Ok (i5, x)"
      moreover from this(1,2) i name rest Some have "split_element i = Some (i5, ?name, take n i3)"
        by (simp add: split_element_def Let_def)
      ultimately show ?thesis using hit until by (simp add: element_def)
    qed
  qed
qed

lemma element_suffix: "element N i = Inr (i', x) \<Longrightarrow> suffix i' i"
  using element_spec[of i] split_element_suffix[of i]
  by (auto simp: strict_suffix_def split: option.splits)

lemma elements_fold:
  "nom_fold_many0 N (element N) acc (\<lambda>m (k, v). m(k \<mapsto> v)) i
     = Ok (snd (split_elements i), acc ++ map_of (rev (fst (split_elements i))))"
proof (induction i arbitrary: acc rule: split_elements.induct)
  case (1 i)
  let ?f = "\<lambda>m (k, v). m(k \<mapsto> v)"
  obtain e e' where el: "element N i
      = (case split_element i of None \<Rightarrow> Err (Error e) | Some (r, x) \<Rightarrow> Ok (r, x))"
    and fold: "nom_fold_many0 N (element N) acc ?f i =
      (case element N i of
         Inr (i', x) \<Rightarrow> if i' = i then Inl (Error e') else nom_fold_many0 N (element N) (?f acc x) ?f i'
       | Inl (Error _) \<Rightarrow> Inr (i, acc)
       | Inl e \<Rightarrow> Inl e)"
    using element_spec[of i] fold_many0[of "element N" acc ?f i] element_suffix by blast
  show ?case
  proof (cases "split_element i")
    case None
    then show ?thesis unfolding fold el by (simp add: split_elements.simps[of i])
  next
    case (Some rx)
    obtain r k v where rx: "rx = (r, k, v)" by (cases rx) auto
    have "r \<noteq> i" using split_element_shorter[of i r "(k, v)"] Some rx by auto
    then have "nom_fold_many0 N (element N) acc ?f i = nom_fold_many0 N (element N) (acc(k \<mapsto> v)) ?f r"
      unfolding fold el using Some rx by simp
    also have "\<dots> = Ok (snd (split_elements r), acc(k \<mapsto> v) ++ map_of (rev (fst (split_elements r))))"
      by (rule "1.IH"[OF Some[unfolded rx] refl])
    also have "acc(k \<mapsto> v) ++ map_of (rev (fst (split_elements r)))
        = acc ++ map_of (rev (fst (split_elements i)))"
      using Some rx by (simp add: split_elements.simps[of i] map_of_append map_add_assoc)
    finally show ?thesis using Some rx by (simp add: split_elements.simps[of i])
  qed
qed

lemma parse_eq_spec: "parse N data = map_err InvalidPort (parse_spec data)"
  unfolding parse_def elements_def elements_fold parse_spec_def
  by (auto simp: Let_def split: option.split)

end

subsection \<open>A reference for the combinators\<close>

text \<open>
  The documented behaviour can be met: a straightforward implementation of the combinators, which
  also serves to run the parser on concrete datagrams.
\<close>

function fold_many0_ref ::
  "(bytes \<Rightarrow> ('a, unit) iresult) \<Rightarrow> 'm \<Rightarrow> ('m \<Rightarrow> 'a \<Rightarrow> 'm) \<Rightarrow> bytes \<Rightarrow> ('m, unit) iresult"
where
  "fold_many0_ref p acc f i =
     (case p i of
        Inr (i', x) \<Rightarrow>
          (if i' = i then Inl (Error ())
           else if length i' < length i then fold_many0_ref p (f acc x) f i'
           else Inl (Error ()))
      | Inl (Error _) \<Rightarrow> Inr (i, acc)
      | Inl e \<Rightarrow> Inl e)"
  by pat_completeness auto
termination
  by (relation "measure (\<lambda>(p, acc, f, i). length i)") auto

declare fold_many0_ref.simps [simp del]

definition nom_ref :: "unit nom" where
  "nom_ref =
     \<lparr>nom_char = (\<lambda>c i. case i of [] \<Rightarrow> Inl (Error ()) | b # i \<Rightarrow> if b = c then Inr (i, c) else Inl (Error ())),
      nom_is_not = (\<lambda>arr i. let p = takeWhile (\<lambda>b. b \<notin> set arr) i in
        if p = [] then Inl (Error ()) else Inr (dropWhile (\<lambda>b. b \<notin> set arr) i, p)),
      nom_tag = (\<lambda>t i. if take (length t) i = t then Inr (drop (length t) i, t) else Inl (Error ())),
      nom_take_until = (\<lambda>t i. case find_sub t i of None \<Rightarrow> Inl (Error ()) | Some n \<Rightarrow> Inr (drop n i, take n i)),
      nom_delimited = (\<lambda>p q r i. case p i of Inl e \<Rightarrow> Inl e | Inr (i, _) \<Rightarrow>
        (case q i of Inl e \<Rightarrow> Inl e | Inr (i, x) \<Rightarrow>
          (case r i of Inl e \<Rightarrow> Inl e | Inr (i, _) \<Rightarrow> Inr (i, x)))),
      nom_tuple3 = (\<lambda>p q r i. case p i of Inl e \<Rightarrow> Inl e | Inr (i, x) \<Rightarrow>
        (case q i of Inl e \<Rightarrow> Inl e | Inr (i, y) \<Rightarrow>
          (case r i of Inl e \<Rightarrow> Inl e | Inr (i, z) \<Rightarrow> Inr (i, (x, y, z))))),
      nom_fold_many0 = fold_many0_ref\<rparr>"

interpretation nom_ref: nom_parsers nom_ref
proof
  fix s :: "bytes \<Rightarrow> (bytes \<times> bytes, unit) iresult" and acc f i
  assume suf: "\<And>i i' x. s i = Inr (i', x) \<Longrightarrow> suffix i' i"
  have "length i' < length i" if "s i = Inr (i', x)" "i' \<noteq> i" for i' x
    using suf[OF that(1)] that(2) by (metis suffix_length_less strict_suffix_def)
  then have "nom_fold_many0 nom_ref s acc f i =
      (case s i of
         Inr (i', x) \<Rightarrow> if i' = i then Inl (Error ()) else nom_fold_many0 nom_ref s (f acc x) f i'
       | Inl (Error _) \<Rightarrow> Inr (i, acc)
       | Inl e' \<Rightarrow> Inl e')"
    by (auto simp: nom_ref_def fold_many0_ref.simps[of s acc f i] split: sum.split nom_err.split)
  then show "\<exists>e. nom_fold_many0 nom_ref s acc f i =
      (case s i of
         Inr (i', x) \<Rightarrow> if i' = i then Inl (Error e) else nom_fold_many0 nom_ref s (f acc x) f i'
       | Inl (Error _) \<Rightarrow> Inr (i, acc)
       | Inl e' \<Rightarrow> Inl e')" ..
qed (auto simp: nom_ref_def Let_def split: sum.split)

section \<open>What the encoder writes\<close>

definition packet_text :: "discovery_packet \<Rightarrow> bytes" where
  "packet_text p =
     ascii ''[MOTD]'' @ dp_motd p @ ascii ''[/MOTD][AD]'' @ fmt_u16 (dp_port p) @ ascii ''[/AD]''"

definition packet_tail :: "discovery_packet \<Rightarrow> bytes list" where
  "packet_tail p = [ascii ''[/MOTD][AD]'', fmt_u16 (dp_port p), ascii ''[/AD]'']"

lemma packet_text_pieces:
  "packet_text p = concat [ascii ''[MOTD]''] @ dp_motd p @ concat (packet_tail p)"
  by (simp add: packet_text_def packet_tail_def)

lemma length_packet_text:
  "length (packet_text p) = 6 + length (dp_motd p) + length (concat (packet_tail p))"
  by (simp add: packet_text_def packet_tail_def)

text \<open>
  A buffer holds the bytes \<open>filled\<close> so far and has room for \<open>remaining_mut\<close> more; the adapter
  \<open>writer()\<close> takes as many bytes as fit, and \<open>put_slice\<close> all of them or panics.
\<close>

locale buf_writer =
  fixes B :: "'b buf_mut" and filled :: "'b \<Rightarrow> bytes"
  assumes write_count: "fst (writer_write B b d) = min (remaining_mut B b) (length d)"
    and write_filled: "filled (snd (writer_write B b d)) = filled b @ take (remaining_mut B b) d"
    and write_remaining: "remaining_mut B (snd (writer_write B b d)) = remaining_mut B b - length d"
    and put_fits: "length d \<le> remaining_mut B b \<Longrightarrow> \<exists>b'. put_slice B b d = Some b'
      \<and> filled b' = filled b @ d \<and> remaining_mut B b' = remaining_mut B b - length d"
    and put_panics: "length d > remaining_mut B b \<Longrightarrow> put_slice B b d = None"
begin

lemma write_all_fits:
  assumes "length d \<le> remaining_mut B b"
  shows "\<exists>b'. write_all B b d = (Ok (), b') \<and> filled b' = filled b @ d
    \<and> remaining_mut B b' = remaining_mut B b - length d"
proof (cases "d = []")
  case True
  then show ?thesis by (simp add: write_all.simps)
next
  case False
  obtain n b' where w: "writer_write B b d = (n, b')" by fastforce
  have "n = length d" and "filled b' = filled b @ d"
    and "remaining_mut B b' = remaining_mut B b - length d"
    using write_count[of b d] write_filled[of b d] write_remaining[of b d] w assms by simp_all
  with False w show ?thesis
    by (simp add: write_all.simps[of B b d] write_all.simps[of B b' "[]"])
qed

lemma write_all_overflows:
  assumes "length d > remaining_mut B b"
  shows "\<exists>b'. write_all B b d = (Err WriteZero, b')"
proof -
  have full: "\<exists>b'. write_all B b d = (Err WriteZero, b')"
    if "remaining_mut B b = 0" "d \<noteq> []" for b d
    using that write_count[of b d]
    by (cases "writer_write B b d") (simp add: write_all.simps[of B b d])
  obtain n b' where w: "writer_write B b d = (n, b')" by fastforce
  have n: "n = remaining_mut B b" and "remaining_mut B b' = 0"
    using write_count[of b d] write_remaining[of b d] w assms by simp_all
  moreover have "drop n d \<noteq> []" using n assms by simp
  ultimately have rest: "\<exists>b''. write_all B b' (drop n d) = (Err WriteZero, b'')"
    by (intro full)
  show ?thesis
  proof (cases "n = 0")
    case True
    then show ?thesis using full n assms by auto
  next
    case False
    with w rest assms show ?thesis by (auto simp: write_all.simps[of B b d])
  qed
qed

lemma write_pieces_fits:
  assumes "length (concat ps) \<le> remaining_mut B b"
  shows "\<exists>b'. write_pieces B b ps = (Ok (), b') \<and> filled b' = filled b @ concat ps
    \<and> remaining_mut B b' = remaining_mut B b - length (concat ps)"
  using assms
proof (induction ps arbitrary: b)
  case Nil
  then show ?case by simp
next
  case (Cons p ps)
  then obtain b1 where "write_all B b p = (Ok (), b1)" "filled b1 = filled b @ p"
    and rem: "remaining_mut B b1 = remaining_mut B b - length p"
    using write_all_fits[of p b] by auto
  moreover have "length (concat ps) \<le> remaining_mut B b1" using Cons.prems rem by simp
  ultimately show ?case using Cons.IH[of b1] Cons.prems by auto
qed

lemma write_pieces_overflows:
  assumes "length (concat ps) > remaining_mut B b"
  shows "\<exists>e b'. write_pieces B b ps = (Err e, b')"
  using assms
proof (induction ps arbitrary: b)
  case Nil
  then show ?case by simp
next
  case (Cons p ps)
  show ?case
  proof (cases "length p \<le> remaining_mut B b")
    case True
    then obtain b1 where "write_all B b p = (Ok (), b1)"
      and "remaining_mut B b1 = remaining_mut B b - length p"
      using write_all_fits[of p b] by auto
    with True Cons.prems Cons.IH[of b1] show ?thesis by auto
  next
    case False
    with write_all_overflows[of b p] show ?thesis by auto
  qed
qed

lemma write_head:
  assumes "6 \<le> remaining_mut B b"
  shows "\<exists>b'. write_pieces B b [ascii ''[MOTD]''] = (Ok (), b')
    \<and> filled b' = filled b @ concat [ascii ''[MOTD]''] \<and> remaining_mut B b' = remaining_mut B b - 6"
proof -
  have len: "length (concat [ascii ''[MOTD]'']) = 6" by simp
  show ?thesis
    using write_pieces_fits[of "[ascii ''[MOTD]'']" b, unfolded len] assms by blast
qed

lemma encode_fits:
  assumes "91 \<notin> set (dp_motd p)" "length (dp_motd p) \<le> 256"
    and "length (packet_text p) \<le> remaining_mut B b"
  shows "\<exists>b'. encode B p b = Some (Ok (), b') \<and> filled b' = filled b @ packet_text p
    \<and> remaining_mut B b' = remaining_mut B b - length (packet_text p)"
proof -
  note len = assms(3)[unfolded length_packet_text]
  obtain b1 where 1: "write_pieces B b [ascii ''[MOTD]''] = (Ok (), b1)"
    "filled b1 = filled b @ concat [ascii ''[MOTD]'']" "remaining_mut B b1 = remaining_mut B b - 6"
    using write_head[of b] len by auto
  have fits: "length (dp_motd p) \<le> remaining_mut B b1" using 1(3) len by simp
  then obtain b2 where 2: "put_slice B b1 (dp_motd p) = Some b2"
    "filled b2 = filled b1 @ dp_motd p" "remaining_mut B b2 = remaining_mut B b1 - length (dp_motd p)"
    using put_fits by blast
  have "length (concat (packet_tail p)) \<le> remaining_mut B b2" using 1(3) 2(3) len by simp
  then obtain b3 where 3: "write_pieces B b2 (packet_tail p) = (Ok (), b3)"
    "filled b3 = filled b2 @ concat (packet_tail p)"
    "remaining_mut B b3 = remaining_mut B b2 - length (concat (packet_tail p))"
    using write_pieces_fits by blast
  have "encode B p b = Some (Ok (), b3)"
    unfolding encode_def packet_tail_def[symmetric] 1(1) using assms(1,2) fits 2(1) 3(1) by simp
  moreover have "filled b3 = filled b @ packet_text p"
    unfolding packet_text_pieces using 1(2) 2(2) 3(2) by simp
  moreover have "remaining_mut B b3 = remaining_mut B b - length (packet_text p)"
    unfolding length_packet_text using 1(3) 2(3) 3(3) by simp
  ultimately show ?thesis by blast
qed

lemma encode_overflows:
  assumes "91 \<notin> set (dp_motd p)" "length (dp_motd p) \<le> 256"
    and "length (packet_text p) > remaining_mut B b"
  shows "\<exists>b'. encode B p b = Some (Err BufferTooSmall, b')"
proof (cases "6 \<le> remaining_mut B b")
  case False
  then have "length (concat [ascii ''[MOTD]'']) > remaining_mut B b" by simp
  then obtain e b' where "write_pieces B b [ascii ''[MOTD]''] = (Err e, b')"
    using write_pieces_overflows by blast
  with assms(1,2) show ?thesis unfolding encode_def by (simp del: write_pieces.simps)
next
  case True
  then obtain b1 where 1: "write_pieces B b [ascii ''[MOTD]''] = (Ok (), b1)"
    "remaining_mut B b1 = remaining_mut B b - 6"
    using write_head by blast
  show ?thesis
  proof (cases "length (dp_motd p) \<le> remaining_mut B b1")
    case False
    with 1 assms(1,2) show ?thesis unfolding encode_def by (simp del: write_pieces.simps)
  next
    case fits: True
    obtain b2 where 2: "put_slice B b1 (dp_motd p) = Some b2"
      "remaining_mut B b2 = remaining_mut B b1 - length (dp_motd p)"
      using put_fits[OF fits] by blast
    have "length (concat (packet_tail p)) > remaining_mut B b2"
      using 1(2) 2(2) True fits assms(3)[unfolded length_packet_text] by linarith
    then obtain e b3 where 3: "write_pieces B b2 (packet_tail p) = (Err e, b3)"
      using write_pieces_overflows by blast
    show ?thesis
      unfolding encode_def packet_tail_def[symmetric] 1(1) using assms(1,2) fits 2(1) 3 by simp
  qed
qed

lemma encode_total:
  "\<exists>r b'. encode B p b = Some (r, b') \<and>
    (if 91 \<in> set (dp_motd p) \<or> length (dp_motd p) > 256 then r = Err (InvalidMotd (dp_motd p)) \<and> b' = b
     else if length (packet_text p) > remaining_mut B b then r = Err BufferTooSmall
     else r = Ok () \<and> filled b' = filled b @ packet_text p
       \<and> remaining_mut B b' = remaining_mut B b - length (packet_text p))"
proof (cases "91 \<in> set (dp_motd p) \<or> length (dp_motd p) > 256")
  case True
  then show ?thesis by (simp add: encode_def)
next
  case False
  then show ?thesis
    using encode_fits[of p b] encode_overflows[of p b]
    by (cases "length (packet_text p) \<le> remaining_mut B b") auto
qed

lemma encode_OkD:
  assumes "encode B p b = Some (Ok (), b')"
  shows "91 \<notin> set (dp_motd p)" and "filled b' = filled b @ packet_text p"
  using encode_total[of p b] assms by (auto split: if_splits)

end

text \<open>The buffer the sender uses: a slice of an array.\<close>

locale slice_writer = buf_writer B sb_done for B :: "slice_buf buf_mut" +
  assumes remaining_slice: "remaining_mut B b = length (sb_unused b)"

definition slice_ref :: "slice_buf buf_mut" where
  "slice_ref =
     \<lparr>remaining_mut = (\<lambda>b. length (sb_unused b)),
      put_slice = (\<lambda>b d. if length d \<le> length (sb_unused b)
        then Some \<lparr>sb_done = sb_done b @ d, sb_unused = drop (length d) (sb_unused b)\<rparr> else None),
      writer_write = (\<lambda>b d. let n = min (length (sb_unused b)) (length d) in
        (n, \<lparr>sb_done = sb_done b @ take n d, sb_unused = drop n (sb_unused b)\<rparr>))\<rparr>"

interpretation slice_ref: slice_writer slice_ref
  by unfold_locales (auto simp: slice_ref_def Let_def min_def)

section \<open>Properties\<close>

lemma split_element_print:
  assumes "name \<noteq> []" "93 \<notin> set name" "\<not> sublist (ascii ''[/'') data"
  shows "split_element (91 # name @ 93 # data @ ascii ''[/'' @ name @ 93 # rest) = Some (rest, name, data)"
proof -
  have "takeWhile (\<lambda>b. b \<noteq> 93) (name @ 93 # xs) = name"
    and "dropWhile (\<lambda>b. b \<noteq> 93) (name @ 93 # xs) = 93 # xs" for xs
    using assms(2) by (auto simp: takeWhile_append dropWhile_append)
  with assms(1) find_sub_print[of data] assms(3) show ?thesis
    by (simp add: split_element_def)
qed

lemma no_bracket: "91 \<notin> set xs \<Longrightarrow> \<not> sublist (ascii ''[/'') xs"
  by (auto dest: set_mono_sublist)

lemma split_elements_packet_text:
  assumes "\<not> sublist (ascii ''[/'') (dp_motd p)"
  shows "fst (split_elements (packet_text p))
    = [(ascii ''MOTD'', dp_motd p), (ascii ''AD'', fmt_u16 (dp_port p))]"
proof -
  let ?ad = "91 # ascii ''AD'' @ 93 # fmt_u16 (dp_port p) @ ascii ''[/'' @ ascii ''AD'' @ 93 # []"
  have "packet_text p = 91 # ascii ''MOTD'' @ 93 # dp_motd p @ ascii ''[/'' @ ascii ''MOTD'' @ 93 # ?ad"
    by (simp add: packet_text_def)
  moreover have "\<not> sublist (ascii ''[/'') (fmt_u16 (dp_port p))"
    using decimal_digits[of 91 "unat (dp_port p)"] by (intro no_bracket) (auto simp: fmt_u16_def)
  moreover have "split_element [] = None" by (simp add: split_element_def)
  ultimately show ?thesis
    using split_element_print[of "ascii ''MOTD''" "dp_motd p" ?ad] assms
      split_element_print[of "ascii ''AD''" "fmt_u16 (dp_port p)" "[]"]
    by (simp add: split_elements.simps)
qed

lemma parse_spec_packet_text:
  assumes "\<not> sublist (ascii ''[/'') (dp_motd p)"
  shows "parse_spec (packet_text p) = Ok p"
  by (simp add: parse_spec_def split_elements_packet_text[OF assms] utf8_valid_fmt_u16 u16_from_str_fmt)

text \<open>The data of an element ends at the first \<open>[/\<close>, so no parsed MOTD contains one.\<close>

lemma split_element_data: "split_element i = Some (r, name, data) \<Longrightarrow> \<not> sublist (ascii ''[/'') data"
  by (auto simp: split_element_def Let_def dest: find_sub_before split: list.splits if_splits option.splits)

lemma split_elements_data: "(name, data) \<in> set (fst (split_elements i)) \<Longrightarrow> \<not> sublist (ascii ''[/'') data"
proof (induction i rule: split_elements.induct)
  case (1 i)
  show ?case
  proof (cases "split_element i")
    case None
    with "1.prems" show ?thesis by (simp add: split_elements.simps[of i])
  next
    case (Some x)
    obtain r n d where x: "x = (r, n, d)" by (rule prod_cases3)
    then show ?thesis
      using "1.IH"[OF Some[unfolded x] refl] "1.prems" Some split_element_data[of i r n d]
      by (auto simp: split_elements.simps[of i])
  qed
qed

lemma parse_spec_motd:
  assumes "parse_spec data = Ok p"
  shows "\<not> sublist (ascii ''[/'') (dp_motd p)"
  using assms split_elements_data[of "ascii ''MOTD''" _ data]
  by (auto simp: parse_spec_def Let_def dest!: map_of_SomeD split: option.splits if_splits)

lemma length_packet_text_le:
  assumes "length (dp_motd p) \<le> 256"
  shows "length (packet_text p) \<le> 283"
  using assms length_fmt_u16[of "dp_port p"] by (simp add: packet_text_def)

text \<open>
  C13: whatever implementation of the parser combinators meets its documentation, parsing a datagram
  agrees with the grammar: elements \<open>[name]data[/name]\<close> are read from the front until one fails, later
  elements of the same name win, and the only failures are those of the \<open>AD\<close> element. In particular
  a \<open>ParseError\<close> never occurs.
\<close>

theorem parse_refines_grammar:
  assumes "nom_parsers N"
  shows "parse N data = map_err InvalidPort (parse_spec data)"
  using assms by (rule nom_parsers.parse_eq_spec)

theorem parse_refines_grammar_witness:
  "nom_parsers nom_ref \<and> parse nom_ref [] = Err (InvalidPort [])"
  using parse_refines_grammar[OF nom_ref.nom_parsers_axioms, of "[]"] nom_ref.nom_parsers_axioms
  by (simp add: parse_spec_def split_elements.simps split_element_def)

text \<open>
  Encoding never panics. It refuses exactly the MOTDs that hold a byte \<open>[\<close> or are longer than
  256 bytes, reports a buffer with less free space than the packet needs, and otherwise appends the
  packet's text to the buffer.
\<close>

theorem encode_outcome:
  assumes "buf_writer B filled"
  shows "\<exists>r b'. encode B p b = Some (r, b') \<and>
    (if 91 \<in> set (dp_motd p) \<or> length (dp_motd p) > 256 then r = Err (InvalidMotd (dp_motd p)) \<and> b' = b
     else if length (packet_text p) > remaining_mut B b then r = Err BufferTooSmall
     else r = Ok () \<and> filled b' = filled b @ packet_text p
       \<and> remaining_mut B b' = remaining_mut B b - length (packet_text p))"
  using assms by (rule buf_writer.encode_total)

theorem encode_outcome_witness:
  "\<exists>b'. encode slice_ref \<lparr>dp_port = 1, dp_motd = [65]\<rparr> \<lparr>sb_done = [], sb_unused = replicate 3 0\<rparr>
    = Some (Err BufferTooSmall, b')"
  using encode_outcome[OF slice_ref.buf_writer_axioms,
      of "\<lparr>dp_port = 1, dp_motd = [65]\<rparr>" "\<lparr>sb_done = [], sb_unused = replicate 3 0\<rparr>"]
  by (auto simp: packet_text_def slice_ref_def)

text \<open>
  C12: a packet that was encoded into an empty buffer parses back to the same port and MOTD.
\<close>

theorem encode_parse_roundtrip:
  assumes "nom_parsers N" "buf_writer B filled"
    and "filled b = []" "encode B p b = Some (Ok (), b')"
  shows "parse N (filled b') = Ok p"
  using buf_writer.encode_OkD[OF assms(2,4)] assms(3)
  by (simp add: nom_parsers.parse_eq_spec[OF assms(1)] parse_spec_packet_text no_bracket[simplified])

theorem encode_parse_roundtrip_witness:
  "\<exists>b'. encode slice_ref \<lparr>dp_port = 25565, dp_motd = [65, 66]\<rparr>
          \<lparr>sb_done = [], sb_unused = replicate 64 0\<rparr> = Some (Ok (), b')
      \<and> parse nom_ref (sb_done b') = Ok \<lparr>dp_port = 25565, dp_motd = [65, 66]\<rparr>"
proof -
  let ?p = "\<lparr>dp_port = 25565, dp_motd = [65, 66]\<rparr>"
  let ?b = "\<lparr>sb_done = [], sb_unused = replicate 64 0\<rparr>"
  have "length (packet_text ?p) \<le> remaining_mut slice_ref ?b"
    using length_fmt_u16[of 25565] by (simp add: packet_text_def slice_ref_def)
  then obtain b' where enc: "encode slice_ref ?p ?b = Some (Ok (), b')"
    using slice_ref.encode_fits[of ?p ?b] by auto
  with encode_parse_roundtrip[OF nom_ref.nom_parsers_axioms slice_ref.buf_writer_axioms _ enc]
  show ?thesis by simp
qed

lemma send_eq:
  assumes "slice_writer B"
  shows "DiscoverySender_send B send_to p =
    (if 91 \<in> set (dp_motd p) \<or> length (dp_motd p) > 256
     then Some (Err (EncodeError (InvalidMotd (dp_motd p))), [])
     else case send_to (packet_text p) of
            Inl e \<Rightarrow> Some (Err (IoError e), [])
          | Inr _ \<Rightarrow> Some (Ok (), [packet_text p]))"
proof (cases "91 \<in> set (dp_motd p) \<or> length (dp_motd p) > 256")
  case True
  then show ?thesis by (auto simp: DiscoverySender_send_def encode_def Let_def)
next
  case False
  note writer = slice_writer.axioms(1)[OF assms]
  let ?b = "\<lparr>sb_done = [], sb_unused = replicate 1500 0\<rparr>"
  have "length (packet_text p) \<le> remaining_mut B ?b"
    using length_packet_text_le[of p] False by (simp add: slice_writer.remaining_slice[OF assms])
  then obtain b' where "encode B p ?b = Some (Ok (), b')" "sb_done b' = packet_text p"
    using buf_writer.encode_fits[OF writer, of p ?b] False by auto
  with False show ?thesis
    by (simp add: DiscoverySender_send_def Let_def split: sum.split)
qed

text \<open>
  The buffer of the sender is always large enough. Sending never panics and never reports a
  full buffer: it refuses the MOTDs the encoder refuses, and otherwise hands the socket one datagram
  with the packet's text, of at most 283 bytes.
\<close>

theorem send_outcome:
  assumes "slice_writer B"
  shows "DiscoverySender_send B send_to p =
    (if 91 \<in> set (dp_motd p) \<or> length (dp_motd p) > 256
     then Some (Err (EncodeError (InvalidMotd (dp_motd p))), [])
     else case send_to (packet_text p) of
            Inl e \<Rightarrow> Some (Err (IoError e), [])
          | Inr _ \<Rightarrow> Some (Ok (), [packet_text p]))
    \<and> (length (dp_motd p) \<le> 256 \<longrightarrow> length (packet_text p) \<le> 283)"
  using send_eq[OF assms] length_packet_text_le by blast

theorem send_outcome_witness:
  "DiscoverySender_send slice_ref (\<lambda>d. Ok (length d)) \<lparr>dp_port = 7, dp_motd = [65]\<rparr>
    = Some (Ok (), [ascii ''[MOTD]A[/MOTD][AD]7[/AD]''])"
  using send_outcome[OF slice_ref.slice_writer_axioms, of "\<lambda>d. Ok (length d)" "\<lparr>dp_port = 7, dp_motd = [65]\<rparr>"]
  by (simp add: packet_text_def fmt_u16_def decimal.simps)

lemma sent_packet_parses:
  assumes "nom_parsers N" "slice_writer B"
    and "DiscoverySender_send B send_to p = Some (r, ds)" "d \<in> set ds"
  shows "parse N (take MAX_PACKET_SIZE d) = Ok p"
proof -
  have p: "91 \<notin> set (dp_motd p)" "length (dp_motd p) \<le> 256" "d = packet_text p"
    using assms(3,4) unfolding send_eq[OF assms(2)] by (auto split: if_splits sum.splits)
  have "length (packet_text p) \<le> MAX_PACKET_SIZE"
    using length_packet_text_le[OF p(2)] by (simp add: MAX_PACKET_SIZE_def)
  then show ?thesis
    by (simp add: p(3) nom_parsers.parse_eq_spec[OF assms(1)] parse_spec_packet_text no_bracket[OF p(1), simplified])
qed

text \<open>
  What one relay advertises, another one's listener reads: every datagram the sender emits is
  received whole and parses to the packet that was sent.
\<close>

theorem sent_packet_received:
  assumes "nom_parsers N" "slice_writer B"
    and "DiscoverySender_send B send_to p = Some (r, ds)" "d \<in> set ds"
  shows "parse N (take MAX_PACKET_SIZE d) = Ok p"
  using assms by (rule sent_packet_parses)

theorem sent_packet_received_witness:
  "parse nom_ref (take MAX_PACKET_SIZE (ascii ''[MOTD]A[/MOTD][AD]7[/AD]''))
    = Ok \<lparr>dp_port = 7, dp_motd = [65]\<rparr>"
proof (rule sent_packet_received[OF nom_ref.nom_parsers_axioms slice_ref.slice_writer_axioms])
  show "DiscoverySender_send slice_ref (\<lambda>d. Ok (length d)) \<lparr>dp_port = 7, dp_motd = [65]\<rparr>
    = Some (Ok (), [ascii ''[MOTD]A[/MOTD][AD]7[/AD]''])"
    by (simp add: send_eq[OF slice_ref.slice_writer_axioms] packet_text_def fmt_u16_def decimal.simps)
qed simp

text \<open>The calls that open the two sockets, in order; the first that fails decides the outcome.\<close>

definition listener_calls :: "bool \<Rightarrow> sys_call list" where
  "listener_calls apple =
     [UdpSocket, SetReuseAddress True] @ (if apple then [SetReusePort True] else [])
       @ [Bind (V4 0 PORT), JoinMulticastV4 MULTICAST_GROUP 0]"

lemma DiscoveryListener_new_eq:
  "DiscoveryListener_new apple os = try_all os (listener_calls apple) (DiscoveryListener (listener_calls apple))"
  by (simp add: DiscoveryListener_new_def listener_calls_def try_all_steps)

definition sender_calls :: "sys_call list" where
  "sender_calls = [Bind (V4 0 0), SetMulticastLoopV4 True]"

lemma DiscoverySender_new_eq:
  "DiscoverySender_new os = try_all os sender_calls (DiscoverySender sender_calls)"
  by (simp add: DiscoverySender_new_def sender_calls_def try_all_steps)

text \<open>The datagrams of a batch that parse, with their senders.\<close>

definition valid_packets :: "'n nom \<Rightarrow> (bytes \<times> socket_addr) list \<Rightarrow> (socket_addr \<times> discovery_packet) list" where
  "valid_packets N ds = List.map_filter
     (\<lambda>(d, from). case parse N (take MAX_PACKET_SIZE d) of Inl _ \<Rightarrow> None | Inr p \<Rightarrow> Some (from, p)) ds"

text \<open>
  The listener hands every datagram that parses to the callback, once and in the order of
  arrival, and skips the others; it stops only at the first error of the socket, and
  leaves what would arrive after it.
\<close>

lemma listener_delivers_valid_packets:
  assumes "\<And>from p s. fst (callback from p s) = Ok ()"
  shows "DiscoveryListener_run N callback (map Inr ds @ Inl e # rest) s
    = (Some (DL_Io e), rest, fold (\<lambda>(from, p) s. snd (callback from p s)) (valid_packets N ds) s)"
proof (induction ds arbitrary: s)
  case Nil
  then show ?case by (simp add: valid_packets_def List.map_filter_simps)
next
  case (Cons df ds)
  obtain d "from" where df: "df = (d, from)" by fastforce
  show ?case
  proof (cases "parse N (take MAX_PACKET_SIZE d)")
    case (Inl err)
    with Cons.IH show ?thesis by (simp add: df valid_packets_def List.map_filter_simps)
  next
    case (Inr p)
    obtain s' where "callback from p s = (Ok (), s')"
      using assms[of "from" p s] by (cases "callback from p s") simp
    with Inr Cons.IH show ?thesis by (simp add: df valid_packets_def List.map_filter_simps)
  qed
qed

text \<open>
  C40: parser and encoder disagree on the MOTDs. The MOTDs that can be received are exactly those without
  \<open>[/\<close>: no datagram parses to another one, and for each of them there is a datagram that does (which
  fits into the receive buffer if the MOTD has at most 1473 bytes). Sending refuses every MOTD that has a
  \<open>[\<close> anywhere, or more than 256 bytes: such a game is taken from one LAN and can not be advertised on
  another.
\<close>

theorem parsed_motd_not_encodable:
  fixes port :: u16
  assumes "nom_parsers N" "slice_writer B"
  shows "((\<exists>data port. parse N data = Ok \<lparr>dp_port = port, dp_motd = motd\<rparr>) \<longleftrightarrow> \<not> sublist (ascii ''[/'') motd)
    \<and> (\<not> sublist (ascii ''[/'') motd \<and> length motd \<le> 1473 \<longrightarrow>
        (\<exists>d. parse N (take MAX_PACKET_SIZE d) = Ok \<lparr>dp_port = port, dp_motd = motd\<rparr>))
    \<and> ((\<exists>e. DiscoverySender_send B send_to \<lparr>dp_port = port, dp_motd = motd\<rparr> = Some (Err (EncodeError e), []))
        \<longleftrightarrow> 91 \<in> set motd \<or> 256 < length motd)"
proof (intro conjI impI)
  let ?p = "\<lparr>dp_port = port, dp_motd = motd\<rparr>"
  have printed: "parse N (packet_text \<lparr>dp_port = q, dp_motd = motd\<rparr>) = Ok \<lparr>dp_port = q, dp_motd = motd\<rparr>"
    if "\<not> sublist (ascii ''[/'') motd" for q
    using that by (simp add: nom_parsers.parse_eq_spec[OF assms(1)] parse_spec_packet_text)
  have "\<not> sublist (ascii ''[/'') motd" if "parse N data = Ok \<lparr>dp_port = q, dp_motd = motd\<rparr>" for data q
    using parse_spec_motd[of data "\<lparr>dp_port = q, dp_motd = motd\<rparr>"] that
    by (cases "parse_spec data") (simp_all add: nom_parsers.parse_eq_spec[OF assms(1)])
  with printed show "(\<exists>data port. parse N data = Ok \<lparr>dp_port = port, dp_motd = motd\<rparr>) \<longleftrightarrow> \<not> sublist (ascii ''[/'') motd"
    by blast
  show "\<exists>d. parse N (take MAX_PACKET_SIZE d) = Ok ?p" if m: "\<not> sublist (ascii ''[/'') motd \<and> length motd \<le> 1473"
  proof -
    have "length (packet_text ?p) \<le> MAX_PACKET_SIZE"
      using m length_fmt_u16[of port] by (simp add: packet_text_def MAX_PACKET_SIZE_def)
    with printed m show ?thesis by (intro exI[of _ "packet_text ?p"]) simp
  qed
  show "(\<exists>e. DiscoverySender_send B send_to ?p = Some (Err (EncodeError e), [])) \<longleftrightarrow> 91 \<in> set motd \<or> 256 < length motd"
    by (auto simp: send_eq[OF assms(2)] split: sum.split)
qed

theorem parsed_motd_not_encodable_witness:
  "(\<exists>data port. parse nom_ref data = Ok \<lparr>dp_port = port, dp_motd = ascii ''a[b''\<rparr>)
    \<and> (\<exists>e. DiscoverySender_send slice_ref (\<lambda>d. Ok (length d)) \<lparr>dp_port = 7, dp_motd = ascii ''a[b''\<rparr> = Some (Err (EncodeError e), []))"
  using parsed_motd_not_encodable[OF nom_ref.nom_parsers_axioms slice_ref.slice_writer_axioms,
      of "ascii ''a[b''" 7 "\<lambda>d. Ok (length d)"]
  by (simp add: sublist_Cons_right)

end
