(* ===== verification/Relay_Types.thy ===== *)
theory Relay_Types
  imports Rust_Std Protocol Id_Map Discovery "HOL-Library.List_Lexorder"
begin

text \<open>
  The data of \<open>relay/src/relay.rs\<close>: identifiers, peers, games, connections, the relay's own state
  and the messages its loop receives, together with the handles it holds on other components. A
  handle stands for one end of a channel or for a listener and is a number; whether the other end is
  still there is part of the environment of each step.
\<close>

section \<open>Handles and identifiers\<close>

datatype relay_static_key = RelayStaticKey (key_bytes: bytes)

datatype relay_connection_handle = RelayConnectionHandle nat

datatype game_connection_handle = GameConnectionHandle nat

datatype game_listener_handle = GameListenerHandle nat

record game_connection =
  gc_peer_addr :: socket_addr
  gc_tx :: game_connection_handle

record game_listener =
  gl_local_addr :: socket_addr
  gl_keepalive :: game_listener_handle

datatype peer_id = PeerId relay_static_key

datatype local_game_id = LocalGameId (lg_u64: u64)

datatype remote_game_id = RemoteGameId (rg_u64: u64)

datatype connection_id = ConnectionId (cid_id: u64) (cid_local: bool)

text \<open>The orders the sources derive: by the wrapped value, and lexicographic in field order.\<close>

instantiation relay_static_key :: linorder
begin

definition less_eq_relay_static_key :: "relay_static_key \<Rightarrow> relay_static_key \<Rightarrow> bool" where
  "less_eq_relay_static_key a b \<longleftrightarrow> key_bytes a \<le> key_bytes b"

definition less_relay_static_key :: "relay_static_key \<Rightarrow> relay_static_key \<Rightarrow> bool" where
  "less_relay_static_key a b \<longleftrightarrow> key_bytes a < key_bytes b"

instance
  by standard (auto simp: less_eq_relay_static_key_def less_relay_static_key_def relay_static_key.expand)

end

instantiation local_game_id :: linorder
begin

definition less_eq_local_game_id :: "local_game_id \<Rightarrow> local_game_id \<Rightarrow> bool" where
  "less_eq_local_game_id a b \<longleftrightarrow> lg_u64 a \<le> lg_u64 b"

definition less_local_game_id :: "local_game_id \<Rightarrow> local_game_id \<Rightarrow> bool" where
  "less_local_game_id a b \<longleftrightarrow> lg_u64 a < lg_u64 b"

instance
  by standard (auto simp: less_eq_local_game_id_def less_local_game_id_def local_game_id.expand)

end

instantiation remote_game_id :: linorder
begin

definition less_eq_remote_game_id :: "remote_game_id \<Rightarrow> remote_game_id \<Rightarrow> bool" where
  "less_eq_remote_game_id a b \<longleftrightarrow> rg_u64 a \<le> rg_u64 b"

definition less_remote_game_id :: "remote_game_id \<Rightarrow> remote_game_id \<Rightarrow> bool" where
  "less_remote_game_id a b \<longleftrightarrow> rg_u64 a < rg_u64 b"

instance
  by standard (auto simp: less_eq_remote_game_id_def less_remote_game_id_def remote_game_id.expand)

end

instantiation connection_id :: linorder
begin

definition less_eq_connection_id :: "connection_id \<Rightarrow> connection_id \<Rightarrow> bool" where
  "less_eq_connection_id a b \<longleftrightarrow> cid_id a < cid_id b \<or> cid_id a = cid_id b \<and> cid_local a \<le> cid_local b"

definition less_connection_id :: "connection_id \<Rightarrow> connection_id \<Rightarrow> bool" where
  "less_connection_id a b \<longleftrightarrow> cid_id a < cid_id b \<or> cid_id a = cid_id b \<and> cid_local a < cid_local b"

instance
  by standard (auto simp: less_eq_connection_id_def less_connection_id_def connection_id.expand)

end

fun peer_key :: "peer_id \<Rightarrow> relay_static_key" where
  "peer_key (PeerId k) = k"

instantiation peer_id :: linorder
begin

definition less_eq_peer_id :: "peer_id \<Rightarrow> peer_id \<Rightarrow> bool" where
  "less_eq_peer_id a b \<longleftrightarrow> peer_key a \<le> peer_key b"

definition less_peer_id :: "peer_id \<Rightarrow> peer_id \<Rightarrow> bool" where
  "less_peer_id a b \<longleftrightarrow> peer_key a < peer_key b"

instance
proof
  fix x y :: peer_id
  show "x \<le> y \<Longrightarrow> y \<le> x \<Longrightarrow> x = y"
    by (cases x; cases y) (simp add: less_eq_peer_id_def)
qed (auto simp: less_eq_peer_id_def less_peer_id_def)

end

section \<open>The relay's state\<close>

record relayed_game =
  rg_local_game_id :: local_game_id

record local_connection =
  lc_tx :: game_connection_handle

record relayed_connection =
  rcn_peer :: peer_id
  rcn_peer_connection_id :: connection_id

record peer =
  peer_handle :: relay_connection_handle
  peer_games :: "remote_game_id \<rightharpoonup> relayed_game"
  local_connections :: "connection_id \<rightharpoonup> local_connection"
  relayed_connections :: "connection_id \<rightharpoonup> relayed_connection"
  next_connection_id :: connection_id

record local_game =
  lgame_addr :: socket_addr

record remote_game_listener =
  rgl_handle :: game_listener_handle
  rgl_addr :: socket_addr

record remote_game =
  rgame_peer_id :: peer_id
  rgame_remote_game_id :: remote_game_id
  rgame_listener :: "remote_game_listener option"

datatype game = Local local_game | Remote remote_game

record relay =
  peers :: "peer_id \<rightharpoonup> peer"
  games :: "(local_game_id, game) id_map"
  local_games :: "socket_addr \<rightharpoonup> local_game_id"
  listen_ports :: "u16 set"
  discovery_port :: u16

datatype message =
    AcceptGameConnection local_game_id game_connection
  | AddGameConnection peer_id connection_id local_game_id game_connection_handle
  | AddPeer peer_id relay_connection_handle
  | AddLocalGame socket_addr u16 bytes
  | Recv peer_id relay_message
  | RemoveGameListener local_game_id
  | RemovePeer peer_id

definition MAX_FORWARDING_HOPS :: u64 where
  "MAX_FORWARDING_HOPS = 2"

text \<open>\<open>Default\<close> of a connection id is id 0 with the flag \<open>local\<close> unset.\<close>

definition connection_id_default :: connection_id where
  "connection_id_default = ConnectionId 0 False"

definition Peer_new :: "relay_connection_handle \<Rightarrow> peer" where
  "Peer_new handle =
     \<lparr>peer_handle = handle, peer_games = Map.empty, local_connections = Map.empty,
      relayed_connections = Map.empty, next_connection_id = connection_id_default\<rparr>"

text \<open>\<open>Relay::new\<close>, given the port of the socket the advertisements leave from.\<close>

definition Relay_new :: "u16 \<Rightarrow> relay" where
  "Relay_new port =
     \<lparr>peers = Map.empty, games = id_map_default, local_games = Map.empty, listen_ports = {},
      discovery_port = port\<rparr>"

text \<open>\<open>Relay::new\<close> as a whole: the sender of advertisements is opened and asked for its port.\<close>

definition Relay_open :: "os \<Rightarrow> (relay, io_error) result" where
  "Relay_open os =
     and_then (DiscoverySender_new os) (\<lambda>discovery_tx.
     and_then (DiscoverySender_local_addr os discovery_tx) (\<lambda>addr.
     Ok (Relay_new (addr_port addr))))"

lemma Relay_open_eq:
  "Relay_open os = try_all os (sender_calls @ [LocalAddr]) (Relay_new (addr_port (os_local_addr os)))"
  by (simp add: Relay_open_def DiscoverySender_new_def DiscoverySender_local_addr_def sender_calls_def try_all_steps)

section \<open>Environment and effects of a step\<close>

text \<open>
  What a step of the relay learns from outside: whether a channel still has its receiver, whether a
  game listener is still running, the outcome of binding a new listener and of the datagram socket,
  and the order in which the hash maps are iterated.
\<close>

record relay_env =
  send_ok :: "relay_connection_handle \<Rightarrow> bool"
  game_send_ok :: "game_connection_handle \<Rightarrow> bool"
  keepalive_ok :: "game_listener_handle \<Rightarrow> bool"
  new_listener :: "(game_listener, io_error) result"
  slice_mut :: "slice_buf buf_mut"
  udp_send :: "bytes \<Rightarrow> (nat, io_error) result"
  iter_peers :: "(peer_id \<rightharpoonup> peer) \<Rightarrow> peer_id list"
  iter_games :: "peer_id \<Rightarrow> (remote_game_id \<rightharpoonup> relayed_game) \<Rightarrow> remote_game_id list"

text \<open>
  What a step does to the outside: messages queued for a peer, data queued for a game connection, a
  listener kept alive, a datagram sent, and the threads it starts (with what they close over).
\<close>

datatype effect =
    SendPeer relay_connection_handle relay_message
  | SendGame game_connection_handle bytes
  | Keepalive game_listener_handle
  | SendDatagram bytes
  | SpawnAccepted local_game_id connection_id game_connection relay_connection_handle
  | SpawnListener local_game_id game_listener
  | SpawnConnect peer_id local_game_id connection_id socket_addr relay_connection_handle

interpretation game_ids: id_source im_map "next_id LocalGameId" "Id_Map.add LocalGameId"
  "keys_below LocalGameId" keys_left
  by (rule id_source_id_map) (simp add: inj_def)

end
