(* ===== verification/Relay_Connection.thy ===== *)
theory Relay_Connection
  imports Relay_Types
begin

text \<open>
  \<open>relay/src/relay/connection.rs\<close>: the encrypted connection between two relays. A frame is a 16-bit
  length and that many bytes, the encryption of one encoded message; a frame of length 0 is a ping. The
  Noise implementation (\<open>snow\<close>) and the message encoding (\<open>prost\<close>) are parameters. The read loop is a
  function of the bytes that arrive, the write loop one of what its queue yields; a connection runs
  both in an interleaving.
\<close>

section \<open>Parameters\<close>

text \<open>
  \<open>snow::TransportState\<close>: \<open>write_message\<close> encrypts a payload into a buffer of the given size and
  \<open>read_message\<close> decrypts a message into one; both change the state. The bytes returned are those
  written to the buffer.
\<close>

record ('t, 'n) noise_transport =
  tr_write :: "'t \<Rightarrow> bytes \<Rightarrow> nat \<Rightarrow> (bytes, 'n) result \<times> 't"
  tr_read :: "'t \<Rightarrow> bytes \<Rightarrow> nat \<Rightarrow> (bytes, 'n) result \<times> 't"

section \<open>Constants and errors\<close>

definition MAX_ENCODED_LEN :: nat where "MAX_ENCODED_LEN = 65535"

definition MAX_ENCRYPTED_LEN :: nat where "MAX_ENCRYPTED_LEN = 16 + 65535"

definition MESSAGE_BUFFER_SIZE :: nat where "MESSAGE_BUFFER_SIZE = 2 + MAX_ENCODED_LEN"

datatype 'n relay_connect_error = RC_Io io_error | RC_Decrypt 'n | RC_Encrypt 'n

datatype ('n, 'd, 'e) relay_connection_error =
  CE_Io io_error | CE_Decode 'd | CE_Decrypt 'n | CE_Encrypt 'n | CE_Returned 'e

text \<open>How a loop of a connection has come out so far.\<close>

type_synonym ('n, 'd, 'e) loop_end = "(unit, ('n, 'd, 'e) relay_connection_error) result poll"

section \<open>Reading\<close>

text \<open>
  The two \<open>read_exact\<close> with which both the handshake and the read loop read a frame, into a buffer of
  the given size: a length beyond it would be a slice out of range.
\<close>

definition read_frame :: "nat \<Rightarrow> in_stream \<Rightarrow> (bytes \<times> in_stream, io_error) result poll" where
  "read_frame cap st =
     (case read_exact 2 st of
        Pending \<Rightarrow> Pending
      | Panicked \<Rightarrow> Panicked
      | Ready (Inl e) \<Rightarrow> Ready (Err e)
      | Ready (Inr (len_buf, st)) \<Rightarrow>
          (let len = unat (u16_from_be_bytes (len_buf ! 0) (len_buf ! 1)) in
           if cap < len then Panicked else read_exact len st))"

text \<open>What the read loop does with a frame: decrypt, unless it is empty, decode, and call back.\<close>

definition read_step ::
  "'d codec \<Rightarrow> ('t, 'n) noise_transport \<Rightarrow> (relay_message \<Rightarrow> 's \<Rightarrow> (unit, 'e) result \<times> 's) \<Rightarrow>
    bytes \<Rightarrow> 't \<Rightarrow> 's \<Rightarrow> (unit, ('n, 'd, 'e) relay_connection_error) result \<times> 't \<times> 's"
where
  "read_step C T callback data t s =
     (let (decrypted, t) = (if length data \<noteq> 0 then tr_read T t data MAX_ENCODED_LEN else (Ok [], t)) in
      case decrypted of
        Inl e \<Rightarrow> (Err (CE_Decrypt e), t, s)
      | Inr decrypted \<Rightarrow>
          (case RelayMessage_decode C decrypted of
             Inl e \<Rightarrow> (Err (CE_Decode e), t, s)
           | Inr m \<Rightarrow>
               (case callback m s of
                  (Inl e, s) \<Rightarrow> (Err (CE_Returned e), t, s)
                | (Inr _, s) \<Rightarrow> (Ok (), t, s))))"

lemma read_exact_Ready:
  "read_exact n st = Ready (Inr (data, st')) \<Longrightarrow>
     in_bytes st = data @ in_bytes st' \<and> length data = n \<and> in_end st' = in_end st"
  by (auto simp: read_exact_def split: if_splits option.splits)

lemma read_frame_consumes:
  assumes "read_frame cap st = Ready (Inr (data, st'))"
  shows "length (in_bytes st) = 2 + length data + length (in_bytes st')"
proof -
  obtain len_buf st1 where 1: "read_exact 2 st = Ready (Inr (len_buf, st1))"
    and 2: "read_exact (unat (u16_from_be_bytes (len_buf ! 0) (len_buf ! 1))) st1 = Ready (Inr (data, st'))"
    using assms by (auto simp: read_frame_def Let_def split: poll.splits sum.splits if_splits)
  from read_exact_Ready[OF 1] read_exact_Ready[OF 2] show ?thesis by simp
qed

function read_loop ::
  "'d codec \<Rightarrow> ('t, 'n) noise_transport \<Rightarrow> (relay_message \<Rightarrow> 's \<Rightarrow> (unit, 'e) result \<times> 's) \<Rightarrow>
    in_stream \<Rightarrow> 't \<Rightarrow> 's \<Rightarrow> ('n, 'd, 'e) loop_end \<times> in_stream \<times> 't \<times> 's"
where
  "read_loop C T callback st t s =
     (case read_frame MAX_ENCRYPTED_LEN st of
        Pending \<Rightarrow> (Pending, st, t, s)
      | Panicked \<Rightarrow> (Panicked, st, t, s)
      | Ready (Inl e) \<Rightarrow> (Ready (Err (CE_Io e)), st, t, s)
      | Ready (Inr (data, st')) \<Rightarrow>
          (case read_step C T callback data t s of
             (Inl e, t, s) \<Rightarrow> (Ready (Err e), st', t, s)
           | (Inr _, t, s) \<Rightarrow> read_loop C T callback st' t s))"
  by pat_completeness auto
termination
  by (relation "measure (\<lambda>(C, T, callback, st, t, s). length (in_bytes st))")
    (auto dest: read_frame_consumes)

declare read_loop.simps [simp del]

section \<open>Writing\<close>

text \<open>What the queue gives the write loop: a message, the end of the ping interval, or that every sender is gone.\<close>

datatype recv_outcome = Received relay_message | Timeout | Disconnected

text \<open>
  One turn of the write loop: \<open>Pending\<close> when it goes on. The slices of the two buffers and the
  \<open>unreachable!()\<close> after encoding are the panics.
\<close>

fun write_step ::
  "'d codec \<Rightarrow> ('t, 'n) noise_transport \<Rightarrow> recv_outcome \<Rightarrow> write_outcome \<Rightarrow> 't \<Rightarrow>
    ('n, 'd, 'e) loop_end \<times> bytes \<times> 't"
where
  "write_step C T (Received m) w t =
     (let len = RelayMessage_encoded_len C m in
      if 65535 < len then (Panicked, [], t)
      else case RelayMessage_encode C m len of
        None \<Rightarrow> (Panicked, [], t)
      | Some encoded \<Rightarrow>
          (case tr_write T t encoded (MESSAGE_BUFFER_SIZE - 2) of
             (Inl e, t) \<Rightarrow> (Ready (Err (CE_Encrypt e)), [], t)
           | (Inr encrypted, t) \<Rightarrow>
               (if MESSAGE_BUFFER_SIZE < 2 + length encrypted then (Panicked, [], t)
                else case stream_write_all (put_u16 (of_nat (length encrypted)) @ encrypted) w of
                  (Inl e, out) \<Rightarrow> (Ready (Err (CE_Io e)), out, t)
                | (Inr _, out) \<Rightarrow> (Pending, out, t))))"
| "write_step C T Timeout w t =
     (case stream_write_all [0, 0] w of
        (Inl e, out) \<Rightarrow> (Ready (Err (CE_Io e)), out, t)
      | (Inr _, out) \<Rightarrow> (Pending, out, t))"
| "write_step C T Disconnected w t = (Ready (Ok ()), [], t)"

fun write_loop ::
  "'d codec \<Rightarrow> ('t, 'n) noise_transport \<Rightarrow> (recv_outcome \<times> write_outcome) list \<Rightarrow> 't \<Rightarrow>
    ('n, 'd, 'e) loop_end \<times> bytes \<times> 't"
where
  "write_loop C T [] t = (Pending, [], t)"
| "write_loop C T ((r, w) # rs) t =
     (case write_step C T r w t of
        (Pending, out, t) \<Rightarrow> (let (res, out', t) = write_loop C T rs t in (res, out @ out', t))
      | (res, out, t) \<Rightarrow> (res, out, t))"

section \<open>Both loops\<close>

text \<open>
  \<open>EstablishedRelayConnection::run\<close> polls the two loops on one thread and returns with the first that
  returns; they share the transport, which neither holds across a wait. An event is a frame read from
  the input, or what the queue yields.
\<close>

datatype connection_event =
    FrameRead "(bytes, io_error) result"
  | Queued recv_outcome write_outcome

fun EstablishedRelayConnection_run ::
  "'d codec \<Rightarrow> ('t, 'n) noise_transport \<Rightarrow> (relay_message \<Rightarrow> 's \<Rightarrow> (unit, 'e) result \<times> 's) \<Rightarrow>
    connection_event list \<Rightarrow> 't \<Rightarrow> 's \<Rightarrow> ('n, 'd, 'e) loop_end \<times> bytes \<times> 't \<times> 's"
where
  "EstablishedRelayConnection_run C T callback [] t s = (Pending, [], t, s)"
| "EstablishedRelayConnection_run C T callback (FrameRead (Inl e) # es) t s = (Ready (Err (CE_Io e)), [], t, s)"
| "EstablishedRelayConnection_run C T callback (FrameRead (Inr data) # es) t s =
     (case read_step C T callback data t s of
        (Inl e, t, s) \<Rightarrow> (Ready (Err e), [], t, s)
      | (Inr _, t, s) \<Rightarrow> EstablishedRelayConnection_run C T callback es t s)"
| "EstablishedRelayConnection_run C T callback (Queued r w # es) t s =
     (case write_step C T r w t of
        (Pending, out, t) \<Rightarrow>
          (let (res, out', t, s) = EstablishedRelayConnection_run C T callback es t s in (res, out @ out', t, s))
      | (res, out, t) \<Rightarrow> (res, out, t, s))"

section \<open>Static keys\<close>

text \<open>\<open>Display\<close> of a static key: two hexadecimal digits for each byte, \<open>{:02x}\<close>.\<close>

definition hex_digit :: "nat \<Rightarrow> char" where
  "hex_digit n = ''0123456789abcdef'' ! n"

definition fmt_hex :: "bytes \<Rightarrow> string" where
  "fmt_hex bs = concat (map (\<lambda>b. [hex_digit (unat b div 16), hex_digit (unat b mod 16)]) bs)"

fun RelayStaticKey_fmt :: "relay_static_key \<Rightarrow> string" where
  "RelayStaticKey_fmt (RelayStaticKey bs) = fmt_hex bs"

section \<open>Laws of the parameters\<close>

text \<open>
  Two transports that came out of one handshake: what the first encrypts the second decrypts, in
  order. A Noise message has at most 65535 bytes, 16 of which authenticate it, and a payload for which
  that is not enough is refused.
\<close>

definition noise_session :: "('t, 'n) noise_transport \<Rightarrow> ('t \<Rightarrow> 't \<Rightarrow> bool) \<Rightarrow> bool" where
  "noise_session T linked \<longleftrightarrow>
     (\<forall>a b p n c a'. linked a b \<longrightarrow> tr_write T a p n = (Ok c, a') \<longrightarrow>
        length c = length p + 16 \<and> length c \<le> n \<and>
        (\<forall>n'. length p \<le> n' \<longrightarrow> (\<exists>b'. tr_read T b c n' = (Ok p, b') \<and> linked a' b')))
     \<and> (\<forall>a p n. 65535 < length p + 16 \<longrightarrow> (\<exists>e a'. tr_write T a p n = (Err e, a')))"

text \<open>
  When writing succeeds: while the transport has nonces left, exactly when the payload and the 16 bytes that
  authenticate it fit into a Noise message and into the buffer.
\<close>

definition noise_writes :: "('t, 'n) noise_transport \<Rightarrow> ('t \<Rightarrow> bool) \<Rightarrow> bool" where
  "noise_writes T nonces_left \<longleftrightarrow>
     (\<forall>t p n. nonces_left t \<longrightarrow> length p + 16 \<le> 65535 \<longrightarrow> length p + 16 \<le> n \<longrightarrow>
        (\<exists>c t'. tr_write T t p n = (Ok c, t') \<and> length c = length p + 16))
     \<and> (\<forall>t p n. 65535 < length p + 16 \<or> n < length p + 16 \<longrightarrow> (\<exists>e t'. tr_write T t p n = (Err e, t')))"

text \<open>
  The encoding of messages: it has the announced length and decodes to the message, and the empty
  encoding is that of the message without content.
\<close>

locale message_codec =
  fixes C :: "'d codec"
  assumes encode_fits: "encoded_len C m \<le> n \<Longrightarrow>
      \<exists>bs. encode_msg C m n = Some bs \<and> length bs = encoded_len C m \<and> decode_msg C bs = Ok m"
    and decode_empty: "decode_msg C [] = Ok \<lparr>inner = None\<rparr>"

lemma read_frame_Ready:
  assumes "length data \<le> 65535" "length data \<le> cap" "in_bytes st = put_u16 (of_nat (length data)) @ data @ rest"
  shows "read_frame cap st = Ready (Ok (data, st\<lparr>in_bytes := rest\<rparr>))"
proof -
  have "unat (of_nat (length data) :: u16) = length data"
    using assms(1) by (simp add: unat_of_nat take_bit_nat_eq_self)
  moreover have "u16_from_be_bytes (put_u16 w ! 0) (put_u16 w ! 1) = w" for w
    by (simp add: put_u16_def u16_from_be_bytes_put_u16)
  ultimately show ?thesis
    using assms(2,3) by (simp add: read_frame_def read_exact_def)
qed

lemma write_step_frame:
  assumes "write_step C T (Received m) None t = (Pending, out, t')"
  obtains encoded encrypted where "encoded_len C m \<le> 65535" "encode_msg C m (encoded_len C m) = Some encoded"
    "tr_write T t encoded 65535 = (Ok encrypted, t')" "length encrypted \<le> 65535"
    "out = put_u16 (of_nat (length encrypted)) @ encrypted"
  using assms
  by (auto simp: Let_def MESSAGE_BUFFER_SIZE_def MAX_ENCODED_LEN_def split: if_splits option.splits prod.splits sum.splits)

text \<open>What the other side makes of a turn of the write loop.\<close>

fun sent_message :: "recv_outcome \<Rightarrow> relay_message" where
  "sent_message (Received m) = m"
| "sent_message _ = \<lparr>inner = None\<rparr>"

context message_codec
begin

lemma encode_exact:
  obtains bs where "encode_msg C m (encoded_len C m) = Some bs" "length bs = encoded_len C m" "decode_msg C bs = Ok m"
  using encode_fits[of m "encoded_len C m"] by auto

lemma message_refused:
  assumes "noise_session T linked" "65519 < encoded_len C m" "encoded_len C m \<le> 65535"
  shows "\<exists>e t'. write_step C T (Received m) w t = (Ready (Err (CE_Encrypt e)), [], t')"
proof -
  obtain bs where bs: "encode_msg C m (encoded_len C m) = Some bs" "length bs = encoded_len C m"
    by (rule encode_exact)
  have "\<exists>e t'. tr_write T t bs 65535 = (Err e, t')"
    using assms bs(2) by (simp add: noise_session_def)
  then show ?thesis
    using assms(3) bs(1) by (auto simp: MESSAGE_BUFFER_SIZE_def MAX_ENCODED_LEN_def)
qed

lemma turn_received:
  assumes "noise_session T linked" "linked a b" "write_step C T r None a = (Pending, out, a')"
  shows "\<exists>data b'. length data \<le> 65535 \<and> out = put_u16 (of_nat (length data)) @ data \<and> linked a' b'
    \<and> read_step C T callback data b s =
        (case callback (sent_message r) s of
           (Inl e, s') \<Rightarrow> (Err (CE_Returned e), b', s') | (Inr _, s') \<Rightarrow> (Ok (), b', s'))"
proof (cases r)
  case (Received m)
  from assms(3)[unfolded Received] obtain encoded c where enc: "encoded_len C m \<le> 65535"
      "encode_msg C m (encoded_len C m) = Some encoded"
    and c: "tr_write T a encoded 65535 = (Ok c, a')" "length c \<le> 65535" "out = put_u16 (of_nat (length c)) @ c"
    by (rule write_step_frame)
  obtain bs where "encode_msg C m (encoded_len C m) = Some bs" "length bs = encoded_len C m" "decode_msg C bs = Ok m"
    by (rule encode_exact)
  with enc have dec: "decode_msg C encoded = Ok m" "length encoded \<le> 65535" by auto
  from assms(1,2) c(1) have n: "length c = length encoded + 16"
    "\<forall>n'. length encoded \<le> n' \<longrightarrow> (\<exists>b'. tr_read T b c n' = (Ok encoded, b') \<and> linked a' b')"
    unfolding noise_session_def by blast+
  then obtain b' where b': "tr_read T b c MAX_ENCODED_LEN = (Ok encoded, b')" "linked a' b'"
    using dec(2) by (auto simp: MAX_ENCODED_LEN_def)
  show ?thesis
    by (rule exI[of _ c], rule exI[of _ b'])
      (use c b' n(1) dec(1) in \<open>auto simp: read_step_def Received split: prod.splits sum.splits\<close>)
next
  case Timeout
  with assms show ?thesis
    by (intro exI[of _ "[]"] exI[of _ b])
      (auto simp: read_step_def decode_empty put_u16_def split: prod.splits sum.splits)
next
  case Disconnected
  with assms show ?thesis by simp
qed

lemma frames_received:
  fixes T :: "('t, 'n) noise_transport"
  assumes "noise_session T linked" "\<And>m s. fst (callback m s) = Ok ()"
  shows "linked a b \<Longrightarrow> write_loop C T (map (\<lambda>r. (r, None)) rs) a = (Pending :: ('n, 'd, 'f) loop_end, out, a') \<Longrightarrow>
    \<exists>b'. linked a' b' \<and> read_loop C T callback \<lparr>in_bytes = out @ rest, in_end = e\<rparr> b s
      = read_loop C T callback \<lparr>in_bytes = rest, in_end = e\<rparr> b'
          (fold (\<lambda>m s. snd (callback m s)) (map sent_message rs) s)"
proof (induction rs arbitrary: a b out s)
  case Nil
  then show ?case by auto
next
  case (Cons r rs)
  obtain out1 out2 a1 where step: "write_step C T r None a = (Pending :: ('n, 'd, 'f) loop_end, out1, a1)"
    and loop: "write_loop C T (map (\<lambda>r. (r, None)) rs) a1 = (Pending :: ('n, 'd, 'f) loop_end, out2, a')" and out: "out = out1 @ out2"
    using Cons.prems(2) by (auto split: prod.splits poll.splits)
  obtain data b1 where data: "length data \<le> 65535" "out1 = put_u16 (of_nat (length data)) @ data" "linked a1 b1"
    and read: "read_step C T callback data b s =
        (case callback (sent_message r) s of
           (Inl e, s') \<Rightarrow> (Err (CE_Returned e), b1, s') | (Inr _, s') \<Rightarrow> (Ok (), b1, s'))"
    using turn_received[OF assms(1) Cons.prems(1) step, of callback s] by blast
  obtain s' where s': "callback (sent_message r) s = (Ok (), s')"
    using assms(2)[of "sent_message r" s] by (cases "callback (sent_message r) s") simp
  have "read_frame MAX_ENCRYPTED_LEN \<lparr>in_bytes = out @ rest, in_end = e\<rparr>
      = Ready (Ok (data, \<lparr>in_bytes = out2 @ rest, in_end = e\<rparr>))"
    using read_frame_Ready[OF data(1), of MAX_ENCRYPTED_LEN "\<lparr>in_bytes = out @ rest, in_end = e\<rparr>" "out2 @ rest"] data(1)
    by (simp add: data(2) out MAX_ENCRYPTED_LEN_def)
  with read s' have "read_loop C T callback \<lparr>in_bytes = out @ rest, in_end = e\<rparr> b s
      = read_loop C T callback \<lparr>in_bytes = out2 @ rest, in_end = e\<rparr> b1 s'"
    by (subst read_loop.simps) simp
  with Cons.IH[OF data(3) loop] s' show ?case by simp
qed

end

section \<open>Panics and errors\<close>

lemma read_exact_no_panic [simp]: "read_exact n st \<noteq> Panicked"
  by (simp add: read_exact_def split: option.split)

lemma read_frame_no_panic:
  assumes "65535 \<le> cap"
  shows "read_frame cap st \<noteq> Panicked"
proof -
  have "\<not> cap < unat w" for w :: u16
    using unsigned_less[of w, where ?'a = nat] assms by simp
  then show ?thesis by (simp add: read_frame_def Let_def split: poll.split sum.split)
qed

text \<open>
  The read loop never panics and never returns \<open>Ok\<close>: whatever bytes arrive, it waits for more or
  ends with an error.
\<close>

lemma read_loop_no_panic:
  "fst (read_loop C T callback st t s) \<noteq> Panicked \<and> fst (read_loop C T callback st t s) \<noteq> Ready (Ok ())"
proof (induction C T callback st t s rule: read_loop.induct)
  case (1 C T callback st t s)
  have "read_frame MAX_ENCRYPTED_LEN st \<noteq> Panicked"
    by (rule read_frame_no_panic) (simp add: MAX_ENCRYPTED_LEN_def)
  with 1 show ?case
    by (subst (1 2) read_loop.simps) (simp split: poll.split sum.split prod.split)
qed

section \<open>Reading in pieces\<close>

text \<open>The frames that reading a stream yields, as the events of a connection.\<close>

function frame_events :: "in_stream \<Rightarrow> connection_event list" where
  "frame_events st =
     (case read_frame MAX_ENCRYPTED_LEN st of
        Ready (Inr (data, st')) \<Rightarrow> FrameRead (Ok data) # frame_events st'
      | Ready (Inl e) \<Rightarrow> [FrameRead (Err e)]
      | _ \<Rightarrow> [])"
  by pat_completeness auto
termination
  by (relation "measure (\<lambda>st. length (in_bytes st))") (auto dest: read_frame_consumes)

declare frame_events.simps [simp del]

lemma MAX_ENCRYPTED_no_panic [simp]: "read_frame MAX_ENCRYPTED_LEN st \<noteq> Panicked"
  by (rule read_frame_no_panic) (simp add: MAX_ENCRYPTED_LEN_def)

lemma run_frame_events:
  "EstablishedRelayConnection_run C T callback (frame_events st) t s
     = (let (res, st', t', s') = read_loop C T callback st t s in (res, [], t', s'))"
proof (induction C T callback st t s rule: read_loop.induct)
  case (1 C T callback st t s)
  show ?case
  proof (cases "read_frame MAX_ENCRYPTED_LEN st")
    case Pending
    then show ?thesis by (simp add: frame_events.simps[of st] read_loop.simps[of _ _ _ st])
  next
    case (Ready r)
    show ?thesis
    proof (cases r)
      case (Inl e)
      with Ready show ?thesis by (simp add: frame_events.simps[of st] read_loop.simps[of _ _ _ st])
    next
      case (Inr p)
      obtain data st' where p: "p = (data, st')" by fastforce
      obtain res t' s' where step: "read_step C T callback data t s = (res, t', s')" by (rule prod_cases3)
      show ?thesis
      proof (cases res)
        case (Inl e)
        with Ready Inr p step show ?thesis
          by (simp add: frame_events.simps[of st] read_loop.simps[of _ _ _ st])
      next
        case (Inr u)
        with "1.IH"[OF Ready \<open>r = Inr p\<close> p[symmetric] step[symmetric] Inr refl] Ready \<open>r = Inr p\<close> p step show ?thesis
          by (simp add: frame_events.simps[of st] read_loop.simps[of _ _ _ st])
      qed
    qed
  qed simp
qed

lemma read_exact_more:
  "read_exact n \<lparr>in_bytes = a, in_end = None\<rparr> = Ready r \<Longrightarrow>
     \<exists>data a'. r = Ok (data, \<lparr>in_bytes = a', in_end = None\<rparr>)
       \<and> read_exact n \<lparr>in_bytes = a @ b, in_end = e\<rparr> = Ready (Ok (data, \<lparr>in_bytes = a' @ b, in_end = e\<rparr>))"
  by (auto simp: read_exact_def split: if_splits)

lemma read_frame_more:
  assumes "read_frame cap \<lparr>in_bytes = a, in_end = None\<rparr> = Ready r"
  shows "\<exists>data a'. r = Ok (data, \<lparr>in_bytes = a', in_end = None\<rparr>)
    \<and> read_frame cap \<lparr>in_bytes = a @ b, in_end = e\<rparr> = Ready (Ok (data, \<lparr>in_bytes = a' @ b, in_end = e\<rparr>))"
proof -
  obtain r1 where r1: "read_exact 2 \<lparr>in_bytes = a, in_end = None\<rparr> = Ready r1"
    using assms by (auto simp: read_frame_def split: poll.splits)
  from read_exact_more[OF r1, of b e] obtain len_buf a1 where 1: "r1 = Ok (len_buf, \<lparr>in_bytes = a1, in_end = None\<rparr>)"
    "read_exact 2 \<lparr>in_bytes = a @ b, in_end = e\<rparr> = Ready (Ok (len_buf, \<lparr>in_bytes = a1 @ b, in_end = e\<rparr>))" by blast
  let ?len = "unat (u16_from_be_bytes (len_buf ! 0) (len_buf ! 1))"
  have 2: "\<not> cap < ?len" "read_exact ?len \<lparr>in_bytes = a1, in_end = None\<rparr> = Ready r"
    using assms r1 1(1) by (auto simp: read_frame_def Let_def split: if_splits)
  from read_exact_more[OF 2(2), of b e] 2(1) r1 1 show ?thesis by (auto simp: read_frame_def)
qed

text \<open>
  C17: how the bytes of a connection arrive makes no difference. The read loop on a stream does what the
  connection does on the frames of the stream one by one; and what it does on the bytes of two
  pieces is what it does on the first and then, unless it has ended, on what was left of it followed by
  the second.
\<close>

theorem read_in_pieces:
  "EstablishedRelayConnection_run C T callback (frame_events st) t s
     = (let (res, _, t', s') = read_loop C T callback st t s in (res, [], t', s'))
   \<and> read_loop C T callback \<lparr>in_bytes = a @ b, in_end = e\<rparr> t s
     = (case read_loop C T callback \<lparr>in_bytes = a, in_end = None\<rparr> t s of
          (Pending, st', t', s') \<Rightarrow> read_loop C T callback \<lparr>in_bytes = in_bytes st' @ b, in_end = e\<rparr> t' s'
        | (res, st', t', s') \<Rightarrow> (res, \<lparr>in_bytes = in_bytes st' @ b, in_end = e\<rparr>, t', s'))"
proof (rule conjI[OF run_frame_events])
  show "read_loop C T callback \<lparr>in_bytes = a @ b, in_end = e\<rparr> t s
     = (case read_loop C T callback \<lparr>in_bytes = a, in_end = None\<rparr> t s of
          (Pending, st', t', s') \<Rightarrow> read_loop C T callback \<lparr>in_bytes = in_bytes st' @ b, in_end = e\<rparr> t' s'
        | (res, st', t', s') \<Rightarrow> (res, \<lparr>in_bytes = in_bytes st' @ b, in_end = e\<rparr>, t', s'))"
  proof (induction "length a" arbitrary: a t s rule: less_induct)
    case less
    show ?case
    proof (cases "read_frame MAX_ENCRYPTED_LEN \<lparr>in_bytes = a, in_end = None\<rparr>")
      case Pending
      then show ?thesis by (simp add: read_loop.simps[of _ _ _ "\<lparr>in_bytes = a, in_end = None\<rparr>"])
    next
      case (Ready r)
      obtain data a' where r: "r = Ok (data, \<lparr>in_bytes = a', in_end = None\<rparr>)"
        and more: "read_frame MAX_ENCRYPTED_LEN \<lparr>in_bytes = a @ b, in_end = e\<rparr> = Ready (Ok (data, \<lparr>in_bytes = a' @ b, in_end = e\<rparr>))"
        using read_frame_more[OF Ready] by blast
      have "length a' < length a" using read_frame_consumes[OF Ready[unfolded r]] by simp
      note IH = less[OF this]
      obtain res t' s' where step: "read_step C T callback data t s = (res, t', s')" by (rule prod_cases3)
      then show ?thesis
        using Ready r more IH[of t' s']
        by (cases res)
          (simp_all add: read_loop.simps[of _ _ _ "\<lparr>in_bytes = a, in_end = None\<rparr>"] read_loop.simps[of _ _ _ "\<lparr>in_bytes = a @ b, in_end = e\<rparr>"])
    qed simp
  qed
qed

text \<open>
  C30: what the write loop does with one message is decided by the length of its encoding, as long as the
  transport has nonces left: up to 65519 bytes the message is encrypted and written as one frame, two bytes of
  length and 16 bytes more than the encoding, of which a failing stream takes a beginning; from 65520 to
  65535 bytes the encryption refuses it and the connection ends with this error, nothing being written;
  beyond that the thread panics on a slice out of range.
\<close>

theorem write_loop_message_size:
  fixes C :: "'d codec" and T :: "('t, 'n) noise_transport" and step :: "('n, 'd, 'e) loop_end \<times> bytes \<times> 't"
  assumes "message_codec C" "noise_writes T nonces_left" "nonces_left t" "step = write_step C T (Received m) w t"
  shows "if encoded_len C m \<le> 65519
    then \<exists>encoded c t'. encode_msg C m (encoded_len C m) = Some encoded \<and> tr_write T t encoded 65535 = (Ok c, t')
      \<and> length c = encoded_len C m + 16
      \<and> step = (let frame = put_u16 (of_nat (length c)) @ c in
          case w of None \<Rightarrow> (Pending, frame, t') | Some (n, e) \<Rightarrow> (Ready (Err (CE_Io e)), take n frame, t'))
    else if encoded_len C m \<le> 65535 then \<exists>e t'. step = (Ready (Err (CE_Encrypt e)), [], t')
    else step = (Panicked, [], t)"
proof -
  obtain bs where bs: "encode_msg C m (encoded_len C m) = Some bs" "length bs = encoded_len C m"
    by (rule message_codec.encode_exact[OF assms(1)])
  note writes = assms(2)[unfolded noise_writes_def]
  consider "encoded_len C m \<le> 65519" | "65519 < encoded_len C m" "encoded_len C m \<le> 65535" | "65535 < encoded_len C m"
    by linarith
  then show ?thesis
  proof cases
    case 1
    then have "length bs + 16 \<le> 65535" using bs(2) by simp
    then have "\<exists>c t'. tr_write T t bs 65535 = (Ok c, t') \<and> length c = length bs + 16"
      using conjunct1[OF writes] assms(3) by blast
    then obtain c t' where "tr_write T t bs 65535 = (Ok c, t')" "length c = encoded_len C m + 16"
      using bs(2) by auto
    then show ?thesis
      using bs(1) 1 assms(4) by (auto simp: MESSAGE_BUFFER_SIZE_def MAX_ENCODED_LEN_def Let_def split: option.split)
  next
    case 2
    then have "65535 < length bs + 16" using bs(2) by simp
    then obtain e t' where "tr_write T t bs 65535 = (Err e, t')" using writes by blast
    with bs 2 assms(4) show ?thesis by (simp add: MESSAGE_BUFFER_SIZE_def MAX_ENCODED_LEN_def)
  next
    case 3
    with assms(4) show ?thesis by simp
  qed
qed

text \<open>
  C7: what one relay queues is what the other handles. The bytes the write loop puts out for any
  sequence of messages and pings, followed by anything, make the read loop of the other side call back
  with exactly those messages in order, an empty one for each ping, and go on with the rest; the two
  transports stay in step.
\<close>

theorem frames_roundtrip:
  fixes T :: "('t, 'n) noise_transport" and C :: "'d codec"
  assumes "message_codec C" "noise_session T linked" "linked a b" "\<And>m s. fst (callback m s) = Ok ()"
    and "write_loop C T (map (\<lambda>r. (r, None)) rs) a = (Pending :: ('n, 'd, 'f) loop_end, out, a')"
  shows "\<exists>b'. linked a' b' \<and> read_loop C T callback \<lparr>in_bytes = out @ rest, in_end = e\<rparr> b s
      = read_loop C T callback \<lparr>in_bytes = rest, in_end = e\<rparr> b'
          (fold (\<lambda>m s. snd (callback m s)) (map sent_message rs) s)"
  using message_codec.frames_received[OF assms(1,2,4,3,5)] .

lemma write_step_Ok: "fst (write_step C T r w t) = Ready (Ok ()) \<longleftrightarrow> r = Disconnected"
  by (cases r) (auto simp: Let_def split: option.split sum.split prod.split)

text \<open>
  A connection runs until an error, or until every sender of its queue is gone, which is the only
  way for \<open>run\<close> to return \<open>Ok\<close>: the relay has removed the peer.
\<close>

theorem run_Ok_only_when_disconnected:
  fixes C :: "'d codec" and T :: "('t, 'n) noise_transport"
    and callback :: "relay_message \<Rightarrow> 's \<Rightarrow> (unit, 'e) result \<times> 's"
  shows "fst (EstablishedRelayConnection_run C T callback es t s) = Ready (Ok ()) \<Longrightarrow>
     \<exists>es1 w es2. es = es1 @ Queued Disconnected w # es2 \<and> fst (EstablishedRelayConnection_run C T callback es1 t s) = Pending"
proof (induction C T callback es t s rule: EstablishedRelayConnection_run.induct)
  case (3 C T callback data es t s)
  obtain r t' s' where step: "read_step C T callback data t s = (r, t', s')" by (metis prod_cases3)
  with 3(2) have r: "r = Ok ()" by (cases r) simp_all
  with 3(1)[OF step[symmetric] r refl] 3(2) step obtain es1 w es2 where "es = es1 @ Queued Disconnected w # es2"
    "fst (EstablishedRelayConnection_run C T callback es1 t' s') = Pending" by auto
  with step r show ?case
    by (intro exI[of _ "FrameRead (Ok data) # es1"] exI[of _ w] exI[of _ es2]) simp
next
  case (4 C T callback r w es t s)
  show ?case
  proof (cases "r = Disconnected")
    case True
    then show ?thesis by (intro exI[of _ "[]"] exI[of _ w] exI[of _ es]) simp
  next
    case False
    obtain res :: "('n, 'd, 'e) loop_end" and out t' where step: "write_step C T r w t = (res, out, t')"
      by (metis prod_cases3)
    have "res \<noteq> Ready (Ok ())" using step write_step_Ok False by (metis fst_conv)
    with 4(2) step have res: "res = Pending" by (cases res) auto
    with 4(1)[OF step[symmetric] res refl] 4(2) step obtain es1 w' es2 where "es = es1 @ Queued Disconnected w' # es2"
      "fst (EstablishedRelayConnection_run C T callback es1 t' s) = Pending" by (auto simp: split_beta)
    with step res show ?thesis
      by (intro exI[of _ "Queued r w # es1"] exI[of _ w'] exI[of _ es2]) (simp add: split_beta)
  qed
qed simp_all

text \<open>Reading the hexadecimal form of a key back.\<close>

fun hex_value :: "char \<Rightarrow> nat" where
  "hex_value c = (if c \<in> set ''0123456789'' then of_char c - 48 else of_char c - 87)"

fun hex_bytes :: "string \<Rightarrow> bytes" where
  "hex_bytes (a # b # cs) = of_nat (16 * hex_value a + hex_value b) # hex_bytes cs"
| "hex_bytes _ = []"

lemma hex_value_digit: "n < 16 \<Longrightarrow> hex_value (hex_digit n) = n"
proof -
  have "\<forall>k \<in> set [0..<16]. hex_value (hex_digit k) = k" by code_simp
  then show "n < 16 \<Longrightarrow> hex_value (hex_digit n) = n" by simp
qed

lemma hex_bytes_fmt_hex: "hex_bytes (fmt_hex bs) = bs"
proof (induction bs)
  case (Cons b bs)
  have "unat b div 16 < 16" using unsigned_less[of b, where ?'a = nat] by simp
  with Cons show ?case by (simp add: fmt_hex_def hex_value_digit del: hex_value.simps)
qed (simp add: fmt_hex_def)

lemma length_fmt_hex [simp]: "length (fmt_hex bs) = 2 * length bs"
  by (induction bs) (simp_all add: fmt_hex_def)

text \<open>
  The form in which a key is shown to the user has two characters for each byte and determines the
  key.
\<close>

lemma key_display_roundtrip:
  "RelayStaticKey (hex_bytes (RelayStaticKey_fmt k)) = k \<and> length (RelayStaticKey_fmt k) = 2 * length (key_bytes k)"
  by (cases k) (simp add: hex_bytes_fmt_hex)

end
