(* ===== verification/Relay_Handshake.thy ===== *)
theory Relay_Handshake
  imports Relay_Connection
begin

text \<open>
  \<open>handshake_loop\<close> of \<open>relay/src/relay/connection.rs\<close>: the two sides exchange the messages of the Noise
  handshake in frames, each in its turn, until the handshake is finished and gives a transport. The
  handshake itself is a parameter.
\<close>

section \<open>The loop\<close>

text \<open>
  \<open>snow::HandshakeState\<close>: whether it is finished, whose turn it is, writing a message with a payload
  into a buffer of a given size, reading a message and putting its payload into one, and the transport
  it turns into.
\<close>

record ('h, 't, 'n) noise_handshake =
  hs_finished :: "'h \<Rightarrow> bool"
  hs_my_turn :: "'h \<Rightarrow> bool"
  hs_write :: "'h \<Rightarrow> bytes \<Rightarrow> nat \<Rightarrow> (bytes, 'n) result \<times> 'h"
  hs_read :: "'h \<Rightarrow> bytes \<Rightarrow> nat \<Rightarrow> (bytes, 'n) result \<times> 'h"
  hs_transport :: "'h \<Rightarrow> ('t, 'n) result"

text \<open>
  The first half of a turn: when it is this side's turn, a message is written and sent. The outcomes of
  the writes are given as a list; without one the write is still under way.
\<close>

definition handshake_send ::
  "('h, 't, 'n) noise_handshake \<Rightarrow> write_outcome list \<Rightarrow> 'h \<Rightarrow>
    (unit, 'n relay_connect_error) result poll \<times> bytes \<times> write_outcome list \<times> 'h"
where
  "handshake_send H ws h =
     (if \<not> hs_my_turn H h then (Ready (Ok ()), [], ws, h)
      else case hs_write H h [] (MESSAGE_BUFFER_SIZE - 2) of
        (Inl e, h) \<Rightarrow> (Ready (Err (RC_Encrypt e)), [], ws, h)
      | (Inr c, h) \<Rightarrow>
          (if MESSAGE_BUFFER_SIZE < 2 + length c then (Panicked, [], ws, h)
           else case ws of
             [] \<Rightarrow> (Pending, [], ws, h)
           | w # ws \<Rightarrow>
               (case stream_write_all (put_u16 (of_nat (length c)) @ c) w of
                  (Inl e, out) \<Rightarrow> (Ready (Err (RC_Io e)), out, ws, h)
                | (Inr _, out) \<Rightarrow> (Ready (Ok ()), out, ws, h))))"

text \<open>The second half: unless that finished the handshake, a message is read.\<close>

definition handshake_receive ::
  "('h, 't, 'n) noise_handshake \<Rightarrow> in_stream \<Rightarrow> 'h \<Rightarrow> (in_stream \<times> 'h, 'n relay_connect_error) result poll"
where
  "handshake_receive H st h =
     (if hs_finished H h then Ready (Ok (st, h))
      else case read_frame MESSAGE_BUFFER_SIZE st of
        Pending \<Rightarrow> Pending
      | Panicked \<Rightarrow> Panicked
      | Ready (Inl e) \<Rightarrow> Ready (Err (RC_Io e))
      | Ready (Inr (data, st)) \<Rightarrow>
          (case hs_read H h data 0 of
             (Inl e, _) \<Rightarrow> Ready (Err (RC_Decrypt e))
           | (Inr _, h) \<Rightarrow> Ready (Ok (st, h))))"

lemma handshake_receive_progress:
  "handshake_receive H st h = Ready (Inr (st', h')) \<Longrightarrow>
     hs_finished H h' \<or> length (in_bytes st') < length (in_bytes st)"
  by (auto simp: handshake_receive_def split: if_splits poll.splits sum.splits prod.splits dest!: read_frame_consumes)

function handshake_loop ::
  "('h, 't, 'n) noise_handshake \<Rightarrow> in_stream \<Rightarrow> write_outcome list \<Rightarrow> 'h \<Rightarrow>
    ('t, 'n relay_connect_error) result poll \<times> bytes \<times> in_stream"
where
  "handshake_loop H st ws h =
     (if hs_finished H h then
        (Ready (case hs_transport H h of Inl e \<Rightarrow> Err (RC_Encrypt e) | Inr t \<Rightarrow> Ok t), [], st)
      else case handshake_send H ws h of
        (Pending, out, _, _) \<Rightarrow> (Pending, out, st)
      | (Panicked, out, _, _) \<Rightarrow> (Panicked, out, st)
      | (Ready (Inl e), out, _, _) \<Rightarrow> (Ready (Err e), out, st)
      | (Ready (Inr _), out, ws, h) \<Rightarrow>
          (case handshake_receive H st h of
             Pending \<Rightarrow> (Pending, out, st)
           | Panicked \<Rightarrow> (Panicked, out, st)
           | Ready (Inl e) \<Rightarrow> (Ready (Err e), out, st)
           | Ready (Inr (st, h)) \<Rightarrow> (let (r, out', st) = handshake_loop H st ws h in (r, out @ out', st))))"
  by pat_completeness auto
termination
  by (relation "measure (\<lambda>(H, st, ws, h). if hs_finished H h then 0 else Suc (length (in_bytes st)))")
    (auto dest!: handshake_receive_progress)

declare handshake_loop.simps [simp del]

section \<open>The handshake completes\<close>

text \<open>
  The pattern \<open>IX\<close> has two messages: the initiator writes the first, the responder the second, and
  then both are finished. \<open>ix_handshake H i r ti tr\<close> says that from \<open>i\<close> and \<open>r\<close> the parameter behaves
  so, with the transports \<open>ti\<close> and \<open>tr\<close> in the end.
\<close>

definition ix_handshake :: "('h, 't, 'n) noise_handshake \<Rightarrow> 'h \<Rightarrow> 'h \<Rightarrow> 't \<Rightarrow> 't \<Rightarrow> bool" where
  "ix_handshake H i r ti tr \<longleftrightarrow> (\<exists>c1 i1 r1 c2 r2 i2.
     \<not> hs_finished H i \<and> hs_my_turn H i \<and> hs_write H i [] 65535 = (Ok c1, i1) \<and> length c1 \<le> 65535
     \<and> \<not> hs_finished H r \<and> \<not> hs_my_turn H r \<and> hs_read H r c1 0 = (Ok [], r1)
     \<and> \<not> hs_finished H r1 \<and> hs_my_turn H r1 \<and> hs_write H r1 [] 65535 = (Ok c2, r2) \<and> length c2 \<le> 65535
     \<and> hs_finished H r2 \<and> hs_transport H r2 = Ok tr
     \<and> \<not> hs_finished H i1 \<and> \<not> hs_my_turn H i1 \<and> hs_read H i1 c2 0 = (Ok [], i2)
     \<and> hs_finished H i2 \<and> hs_transport H i2 = Ok ti)"

lemma handshake_send_turn:
  assumes "hs_my_turn H h" "hs_write H h [] 65535 = (Ok c, h')" "length c \<le> 65535"
  shows "handshake_send H (None # ws) h = (Ready (Ok ()), put_u16 (of_nat (length c)) @ c, ws, h')"
  using assms by (simp add: handshake_send_def MESSAGE_BUFFER_SIZE_def MAX_ENCODED_LEN_def)

lemma handshake_receive_frame:
  assumes "\<not> hs_finished H h" "hs_read H h c 0 = (Ok x, h')" "length c \<le> 65535"
    and "in_bytes st = put_u16 (of_nat (length c)) @ c @ rest"
  shows "handshake_receive H st h = Ready (Ok (st\<lparr>in_bytes := rest\<rparr>, h'))"
  using assms read_frame_Ready[OF assms(3) _ assms(4), of MESSAGE_BUFFER_SIZE]
  by (simp add: handshake_receive_def MESSAGE_BUFFER_SIZE_def MAX_ENCODED_LEN_def)

text \<open>
  The handshake of two relays completes. There are two frames, one for each direction, such that
  the initiator sends the first and, given the second, ends with its transport, and the responder,
  given the first, sends the second and ends with its transport; what arrives behind the frame of the
  handshake stays in the input for the connection.
\<close>

lemma handshake_completes:
  assumes "ix_handshake H i r ti tr"
  shows "\<exists>f1 f2. \<forall>rest e.
      handshake_loop H \<lparr>in_bytes = f2 @ rest, in_end = e\<rparr> [None] i
        = (Ready (Ok ti), f1, \<lparr>in_bytes = rest, in_end = e\<rparr>)
    \<and> handshake_loop H \<lparr>in_bytes = f1 @ rest, in_end = e\<rparr> [None] r
        = (Ready (Ok tr), f2, \<lparr>in_bytes = rest, in_end = e\<rparr>)"
proof -
  obtain c1 i1 r1 c2 r2 i2 where
    i: "\<not> hs_finished H i" "hs_my_turn H i" "hs_write H i [] 65535 = (Ok c1, i1)" "length c1 \<le> 65535"
    and r: "\<not> hs_finished H r" "\<not> hs_my_turn H r" "hs_read H r c1 0 = (Ok [], r1)"
    and r1: "\<not> hs_finished H r1" "hs_my_turn H r1" "hs_write H r1 [] 65535 = (Ok c2, r2)" "length c2 \<le> 65535"
    and r2: "hs_finished H r2" "hs_transport H r2 = Ok tr"
    and i1: "\<not> hs_finished H i1" "\<not> hs_my_turn H i1" "hs_read H i1 c2 0 = (Ok [], i2)"
    and i2: "hs_finished H i2" "hs_transport H i2 = Ok ti"
    using assms unfolding ix_handshake_def by blast
  let ?f1 = "put_u16 (of_nat (length c1)) @ c1" and ?f2 = "put_u16 (of_nat (length c2)) @ c2"
  have "handshake_loop H \<lparr>in_bytes = ?f2 @ rest, in_end = e\<rparr> [None] i
      = (Ready (Ok ti), ?f1, \<lparr>in_bytes = rest, in_end = e\<rparr>)" for rest e
    using handshake_receive_frame[OF i1(1,3) r1(4), of "\<lparr>in_bytes = ?f2 @ rest, in_end = e\<rparr>" rest]
    by (subst handshake_loop.simps)
      (simp add: i handshake_send_turn[OF i(2-4)] handshake_loop.simps[of _ _ _ i2] i2)
  moreover have "handshake_loop H \<lparr>in_bytes = ?f1 @ rest, in_end = e\<rparr> [None] r
      = (Ready (Ok tr), ?f2, \<lparr>in_bytes = rest, in_end = e\<rparr>)" for rest e
  proof -
    have "handshake_loop H st [None] r1 = (Ready (Ok tr), ?f2, st)" for st
      using r2 by (subst handshake_loop.simps)
        (simp add: r1 handshake_send_turn[OF r1(2-4)] handshake_receive_def handshake_loop.simps[of _ _ _ r2])
    then show ?thesis
      using handshake_receive_frame[OF r(1,3) i(4), of "\<lparr>in_bytes = ?f1 @ rest, in_end = e\<rparr>" rest]
      by (subst handshake_loop.simps) (simp add: r handshake_send_def)
  qed
  ultimately show ?thesis by blast
qed

text \<open>
  The handshake loop ends or waits for input: whatever arrives, and however writing goes, it never
  panics, as long as the handshake writes no more than the buffer it is given holds.
\<close>

lemma handshake_loop_no_panic:
  assumes "\<And>h p n c h'. hs_write H h p n = (Ok c, h') \<Longrightarrow> length c \<le> n"
  shows "fst (handshake_loop H st ws h) \<noteq> Panicked"
  using assms
proof (induction H st ws h rule: handshake_loop.induct)
  case (1 H st ws h)
  have "\<not> 65535 < length c" if "hs_write H h [] 65535 = (Ok c, h')" for c h'
    using 1(2)[OF that] by simp
  then have send: "fst (handshake_send H ws h) \<noteq> Panicked"
    by (auto simp: handshake_send_def MESSAGE_BUFFER_SIZE_def MAX_ENCODED_LEN_def
        split: prod.split sum.split list.split)
  have "read_frame MESSAGE_BUFFER_SIZE st \<noteq> Panicked"
    by (rule read_frame_no_panic) (simp add: MESSAGE_BUFFER_SIZE_def MAX_ENCODED_LEN_def)
  then have receive: "handshake_receive H st h' \<noteq> Panicked" for h'
    by (simp add: handshake_receive_def split: poll.split sum.split prod.split)
  obtain r out ws' h' where eq: "handshake_send H ws h = (r, out, ws', h')" by (metis prod_cases4)
  have "fst (handshake_loop H st' ws' h'') \<noteq> Panicked"
    if "\<not> hs_finished H h" "r = Ready (Ok ())" "handshake_receive H st h' = Ready (Inr (st', h''))" for st' h''
    by (rule 1(1)[OF that(1) eq[symmetric] that(2) refl refl refl that(3) refl refl 1(2)])
  then show ?case
    by (subst handshake_loop.simps)
      (use send receive[of h'] in \<open>auto simp: eq Let_def split: prod.split poll.split sum.split\<close>)
qed

end
