(* ===== verification/Relay_Handle.thy ===== *)
theory Relay_Handle
  imports Relay_Connection "HOL-Library.Multiset"
begin

text \<open>
  \<open>RelayHandle\<close>, \<open>RelayConnectHandle\<close> and \<open>PeerConnection\<close> of \<open>relay/src/relay.rs\<close>: the thread that
  connects to another relay and reconnects until it is cancelled, and the threads that accept
  connections from other relays and ask for approval of keys that are not trusted yet. Both send the
  relay \<open>AddPeer\<close> when a handshake is done and \<open>RemovePeer\<close> when the connection is dropped.
\<close>

section \<open>Connecting\<close>

text \<open>
  Where the thread of \<open>RelayHandle::connect\<close> stands: before the test of the loop, connecting, in the
  handshake, running a connection with a peer, or ended.
\<close>

datatype connect_pc = AtTop | Connecting | Handshaking | RunningWith peer_id | Stopped

record connect_state =
  cancel_flag :: bool
  connect_at :: connect_pc
  to_relay :: "message list"

text \<open>
  What happens to it: the flag is tested; \<open>connect\<close>, the handshake and \<open>run\<close> return, the handshake with
  the peer's key and the handle of its queue, and with whether the relay still takes messages; and
  \<open>cancel\<close>, which another thread can call at any time. After a failed attempt the thread waits for the
  reconnect time and is at the top again.
\<close>

datatype ('n, 'd) connect_event =
    Test
  | ConnectDone "(unit, 'n relay_connect_error) result"
  | HandshakeDone "(relay_static_key \<times> relay_connection_handle, 'n relay_connect_error) result" bool
  | RunDone "(unit, ('n, 'd, unit) relay_connection_error) result"
  | CancelCalled

text \<open>\<open>RelayConnectHandle::cancel\<close>.\<close>

definition cancel :: "connect_state \<Rightarrow> connect_state" where
  "cancel s = s\<lparr>cancel_flag := True\<rparr>"

text \<open>
  \<open>PeerConnection::new\<close> after the handshake: the relay is told of the peer, and a relay that is gone
  is an error. \<open>PeerConnection::drop\<close> tells it that the peer is gone.
\<close>

definition PeerConnection_new ::
  "(relay_static_key \<times> relay_connection_handle, 'n relay_connect_error) result \<Rightarrow> bool \<Rightarrow> peer_id option \<times> message list"
where
  "PeerConnection_new handshake relay_open =
     (case handshake of
        Inl _ \<Rightarrow> (None, [])
      | Inr (key, handle) \<Rightarrow>
          (if relay_open then (Some (PeerId key), [AddPeer (PeerId key) handle]) else (None, [])))"

definition PeerConnection_drop :: "peer_id \<Rightarrow> message list" where
  "PeerConnection_drop p = [RemovePeer p]"

fun RelayHandle_connect :: "('n, 'd) connect_event \<Rightarrow> connect_state \<Rightarrow> connect_state option" where
  "RelayHandle_connect Test s =
     (if connect_at s \<noteq> AtTop then None
      else Some (s\<lparr>connect_at := (if cancel_flag s then Stopped else Connecting)\<rparr>))"
| "RelayHandle_connect (ConnectDone r) s =
     (if connect_at s \<noteq> Connecting then None
      else Some (s\<lparr>connect_at :=
        (case r of Inr _ \<Rightarrow> Handshaking | Inl e \<Rightarrow> if e = RC_Io InvalidInput then Stopped else AtTop)\<rparr>))"
| "RelayHandle_connect (HandshakeDone r relay_open) s =
     (if connect_at s \<noteq> Handshaking then None
      else Some (case PeerConnection_new r relay_open of
          (None, ms) \<Rightarrow> s\<lparr>connect_at := Stopped, to_relay := to_relay s @ ms\<rparr>
        | (Some p, ms) \<Rightarrow> s\<lparr>connect_at := RunningWith p, to_relay := to_relay s @ ms\<rparr>))"
| "RelayHandle_connect (RunDone r) s =
     (case connect_at s of
        RunningWith p \<Rightarrow>
          Some (case r of
              Inl _ \<Rightarrow> s\<lparr>connect_at := Stopped, to_relay := to_relay s @ PeerConnection_drop p\<rparr>
            | Inr _ \<Rightarrow> s\<lparr>cancel_flag := False, connect_at := AtTop, to_relay := to_relay s @ PeerConnection_drop p\<rparr>)
      | _ \<Rightarrow> None)"
| "RelayHandle_connect CancelCalled s = Some (cancel s)"

definition connect_init :: connect_state where
  "connect_init = \<lparr>cancel_flag = False, connect_at = AtTop, to_relay = []\<rparr>"

abbreviation connect_exec :: "('n, 'd) connect_event list \<Rightarrow> connect_state \<Rightarrow> connect_state option" where
  "connect_exec \<equiv> exec_events RelayHandle_connect"

text \<open>The peers that the relay was told of and not told to be gone, in a sequence of messages.\<close>

fun open_peers :: "message list \<Rightarrow> peer_id list \<Rightarrow> peer_id list" where
  "open_peers [] ps = ps"
| "open_peers (AddPeer p _ # ms) ps = open_peers ms (p # ps)"
| "open_peers (RemovePeer p # ms) ps = open_peers ms (remove1 p ps)"
| "open_peers (_ # ms) ps = open_peers ms ps"

lemma open_peers_append: "open_peers (ms @ ms') ps = open_peers ms' (open_peers ms ps)"
  by (induction ms ps rule: open_peers.induct) simp_all

definition balanced :: "connect_state \<Rightarrow> bool" where
  "balanced s \<longleftrightarrow> open_peers (to_relay s) [] = (case connect_at s of RunningWith p \<Rightarrow> [p] | _ \<Rightarrow> [])"

interpretation connect_machine: event_machine RelayHandle_connect "\<lambda>_. True" balanced
proof
  show "pred_option balanced (RelayHandle_connect ev s)" if "balanced s" for ev :: "('a, 'b) connect_event" and s
    using that
    by (cases ev)
      (auto simp: balanced_def cancel_def PeerConnection_new_def PeerConnection_drop_def open_peers_append
        split: connect_pc.splits sum.splits)
qed

text \<open>
  C29: the relay hears of a peer exactly while the connection to it runs: whatever happens, the peers
  announced and not yet taken back are the one the thread is running a connection with, if any.
\<close>

theorem connect_announces_peer:
  assumes "connect_exec es connect_init = Some s"
  shows "open_peers (to_relay s) [] = (case connect_at s of RunningWith p \<Rightarrow> [p] | _ \<Rightarrow> [])"
  using connect_machine.exec_inv[OF _ _ assms] by (simp add: balanced_def connect_init_def)

theorem connect_announces_peer_witness:
  "\<exists>s. connect_exec ([Test, ConnectDone (Ok ()), HandshakeDone (Ok (RelayStaticKey [1], RelayConnectionHandle 2)) True]
      :: (unit, unit) connect_event list) connect_init = Some s \<and> open_peers (to_relay s) [] = [PeerId (RelayStaticKey [1])]"
proof -
  let ?es = "[Test, ConnectDone (Ok ()), HandshakeDone (Ok (RelayStaticKey [1], RelayConnectionHandle 2)) True]
      :: (unit, unit) connect_event list"
  obtain s where s: "connect_exec ?es connect_init = Some s" "connect_at s = RunningWith (PeerId (RelayStaticKey [1]))"
    by (simp add: connect_init_def PeerConnection_new_def)
  have "open_peers (to_relay s) [] = [PeerId (RelayStaticKey [1])]"
    using connect_announces_peer[OF s(1)] s(2) by simp
  with s(1) show ?thesis by blast
qed

interpretation cancelled_machine: event_machine RelayHandle_connect "\<lambda>ev. ev \<noteq> RunDone (Ok ())"
  "\<lambda>s. cancel_flag s"
proof
  show "pred_option cancel_flag (RelayHandle_connect ev s)" if "cancel_flag s" "ev \<noteq> RunDone (Ok ())"
    for ev :: "('a, 'b) connect_event" and s
    using that by (cases ev) (auto simp: cancel_def PeerConnection_new_def split: connect_pc.splits sum.splits)
qed

text \<open>
  C28: cancelling stops the thread. After \<open>cancel\<close>, as long as no connection ends with \<open>Ok\<close>, the next time
  the loop is at its top it ends, and no further connection is attempted. The condition is needed: a
  cancellation that comes while a connection is running is lost when the connection then ends because
  the relay has removed the peer; the flag is reset and the thread connects again.
\<close>

theorem cancel_stops:
  fixes es :: "('n, 'd) connect_event list"
  assumes "\<forall>ev \<in> set es. ev \<noteq> RunDone (Ok ())" "connect_exec (CancelCalled # es) s = Some s'"
    and "connect_at s' = AtTop"
  shows "RelayHandle_connect (Test :: ('n, 'd) connect_event) s' = Some (s'\<lparr>connect_at := Stopped\<rparr>)
    \<and> (\<exists>lost. connect_exec [Test, ConnectDone (Ok ()), HandshakeDone (Ok (key, handle)) True, CancelCalled, RunDone (Ok ()),
           Test :: ('n, 'd) connect_event] connect_init = Some lost
         \<and> connect_at lost = Connecting \<and> \<not> cancel_flag lost)"
proof
  have "connect_exec es (cancel s) = Some s'" using assms(2) by simp
  from cancelled_machine.exec_inv[OF _ assms(1) this] assms(3)
  show "RelayHandle_connect (Test :: ('n, 'd) connect_event) s' = Some (s'\<lparr>connect_at := Stopped\<rparr>)"
    by (simp add: cancel_def)
qed (simp add: connect_init_def cancel_def PeerConnection_new_def)

theorem cancel_stops_witness:
  "\<exists>s. connect_exec (CancelCalled # [ConnectDone (Err (RC_Io TimedOut))] :: (unit, unit) connect_event list)
      (connect_init\<lparr>connect_at := Connecting\<rparr>) = Some s
    \<and> RelayHandle_connect (Test :: (unit, unit) connect_event) s = Some (s\<lparr>connect_at := Stopped\<rparr>)"
proof -
  let ?es = "[ConnectDone (Err (RC_Io TimedOut))] :: (unit, unit) connect_event list"
  obtain s where s: "connect_exec (CancelCalled # ?es) (connect_init\<lparr>connect_at := Connecting\<rparr>) = Some s" "connect_at s = AtTop"
    by (simp add: cancel_def)
  have "\<forall>ev \<in> set ?es. ev \<noteq> RunDone (Ok ())" by simp
  from cancel_stops[OF this s] s(1) show ?thesis by blast
qed

section \<open>Accepting\<close>

text \<open>
  The state of \<open>RelayHandle::listen\<close>: the keys that were approved, the threads that are in the
  handshake, each with its copy of the trusted keys, the questions waiting for the loop that asks, the
  connections being run, and what was asked and answered. Connections are numbered.
\<close>

record listen_state =
  trusted_peers :: "relay_static_key set"
  handshaking :: "nat \<rightharpoonup> relay_static_key set"
  asking :: "(nat \<times> relay_static_key) list"
  running_conns :: "(nat \<times> relay_static_key) list"
  answers :: "(relay_static_key \<times> bool) list"
  listen_to_relay :: "message list"

definition listen_init :: listen_state where
  "listen_init = \<lparr>trusted_peers = {}, handshaking = Map.empty, asking = [], running_conns = [], answers = [],
     listen_to_relay = []\<rparr>"

text \<open>
  The listener accepts a connection, which copies the trusted keys; a handshake returns; the loop that
  asks gets the answer of the callback for the first question; a connection ends.
\<close>

datatype 'n listen_event =
    ConnAccepted nat
  | ConnHandshaken nat "(relay_static_key \<times> relay_connection_handle, 'n relay_connect_error) result" bool
  | Answered bool
  | ConnEnded nat relay_static_key

text \<open>
  \<open>RelayHandle::accept\<close> with the closure it is given by \<open>listen\<close>: a trusted key is run at once, any
  other one becomes a question.
\<close>

definition RelayHandle_accept ::
  "nat \<Rightarrow> relay_static_key set \<Rightarrow> (relay_static_key \<times> relay_connection_handle, 'n relay_connect_error) result \<Rightarrow>
    bool \<Rightarrow> listen_state \<Rightarrow> listen_state"
where
  "RelayHandle_accept n trusted handshake relay_open s =
     (case PeerConnection_new handshake relay_open of
        (None, ms) \<Rightarrow> s\<lparr>listen_to_relay := listen_to_relay s @ ms\<rparr>
      | (Some (PeerId key), ms) \<Rightarrow>
          (let s = s\<lparr>listen_to_relay := listen_to_relay s @ ms\<rparr> in
           if key \<in> trusted then s\<lparr>running_conns := (n, key) # running_conns s\<rparr>
           else s\<lparr>asking := asking s @ [(n, key)]\<rparr>))"

fun RelayHandle_listen :: "'n listen_event \<Rightarrow> listen_state \<Rightarrow> listen_state option" where
  "RelayHandle_listen (ConnAccepted n) s =
     (if handshaking s n \<noteq> None then None
      else Some (s\<lparr>handshaking := (handshaking s)(n \<mapsto> trusted_peers s)\<rparr>))"
| "RelayHandle_listen (ConnHandshaken n handshake relay_open) s =
     (case handshaking s n of
        None \<Rightarrow> None
      | Some trusted \<Rightarrow>
          Some (RelayHandle_accept n trusted handshake relay_open (s\<lparr>handshaking := (handshaking s)(n := None)\<rparr>)))"
| "RelayHandle_listen (Answered b) s =
     (case asking s of
        [] \<Rightarrow> None
      | (n, key) # rest \<Rightarrow>
          (let s = s\<lparr>asking := rest, answers := (key, b) # answers s\<rparr> in
           Some (if b then s\<lparr>trusted_peers := insert key (trusted_peers s), running_conns := (n, key) # running_conns s\<rparr>
                 else s\<lparr>listen_to_relay := listen_to_relay s @ PeerConnection_drop (PeerId key)\<rparr>)))"
| "RelayHandle_listen (ConnEnded n key) s =
     (if (n, key) \<in> set (running_conns s)
      then Some (s\<lparr>running_conns := remove1 (n, key) (running_conns s),
                   listen_to_relay := listen_to_relay s @ PeerConnection_drop (PeerId key)\<rparr>)
      else None)"

definition approved_only :: "listen_state \<Rightarrow> bool" where
  "approved_only s \<longleftrightarrow>
     (\<forall>k. k \<in> trusted_peers s \<longrightarrow> (k, True) \<in> set (answers s))
     \<and> (\<forall>n ts k. handshaking s n = Some ts \<longrightarrow> k \<in> ts \<longrightarrow> (k, True) \<in> set (answers s))
     \<and> (\<forall>n k. (n, k) \<in> set (running_conns s) \<longrightarrow> (k, True) \<in> set (answers s))"

lemma approved_accept:
  assumes "approved_only s" "\<forall>k \<in> ts. (k, True) \<in> set (answers s)"
  shows "approved_only (RelayHandle_accept n ts h b s)"
  using assms
  by (auto simp: approved_only_def RelayHandle_accept_def PeerConnection_new_def Let_def split: sum.split)

interpretation approval_machine: event_machine RelayHandle_listen "\<lambda>_. True" approved_only
proof
  show "pred_option approved_only (RelayHandle_listen ev s)" if inv: "approved_only s" for ev :: "'a listen_event" and s
  proof (cases ev)
    case (ConnHandshaken n h b)
    show ?thesis
    proof (cases "handshaking s n")
      case (Some ts)
      let ?s = "s\<lparr>handshaking := (handshaking s)(n := None)\<rparr>"
      have "approved_only ?s" "\<forall>k \<in> ts. (k, True) \<in> set (answers ?s)" using inv Some by (auto simp: approved_only_def)
      then show ?thesis using ConnHandshaken Some by (simp add: approved_accept)
    qed (simp add: ConnHandshaken)
  next
    case (Answered b)
    then show ?thesis using inv by (cases "asking s") (auto simp: approved_only_def Let_def)
  next
    case (ConnEnded n k)
    then show ?thesis using inv by (auto simp: approved_only_def dest: notin_set_remove1 in_set_remove1 set_remove1_subset[THEN subsetD])
  qed (use inv in \<open>auto simp: approved_only_def\<close>)
qed

text \<open>
  No connection from another relay is run unless the user approved its key: in whatever order
  connections come, handshakes end and questions are answered, the key of every connection that is
  run was answered with yes.
\<close>

lemma only_approved_peers_run:
  assumes "exec_events RelayHandle_listen es listen_init = Some s" "(n, key) \<in> set (running_conns s)"
  shows "(key, True) \<in> set (answers s)"
  using approval_machine.exec_inv[OF _ _ assms(1)] assms(2)
  by (auto simp: approved_only_def listen_init_def)

lemma mset_open_peers:
  assumes "mset (open_peers ms []) = add_mset p X"
  shows "mset (open_peers (ms @ PeerConnection_drop p) []) = X"
  using assms by (simp add: open_peers_append PeerConnection_drop_def)

definition registered_ok :: "listen_state \<Rightarrow> bool" where
  "registered_ok s \<longleftrightarrow> mset (open_peers (listen_to_relay s) []) = mset (map (PeerId \<circ> snd) (running_conns s @ asking s))"

interpretation registration_machine: event_machine RelayHandle_listen "\<lambda>_. True" registered_ok
proof
  show "pred_option registered_ok (RelayHandle_listen ev s)" if inv: "registered_ok s" for ev :: "'a listen_event" and s
  proof (cases ev)
    case (ConnHandshaken n h b)
    then show ?thesis
      using inv
      by (auto simp: registered_ok_def RelayHandle_accept_def PeerConnection_new_def open_peers_append Let_def
          split: option.split sum.split)
  next
    case (Answered b)
    then show ?thesis
      using inv by (cases "asking s") (auto simp: registered_ok_def mset_open_peers Let_def)
  next
    case (ConnEnded n k)
    show ?thesis
    proof (cases "(n, k) \<in> set (running_conns s)")
      case True
      then have "mset (running_conns s) = add_mset (n, k) (mset (remove1 (n, k) (running_conns s)))"
        by simp
      from arg_cong[OF this, of "image_mset (PeerId \<circ> snd)"]
      have "mset (map (PeerId \<circ> snd) (running_conns s))
          = add_mset (PeerId k) (mset (map (PeerId \<circ> snd) (remove1 (n, k) (running_conns s))))"
        by (simp only: mset_map image_mset_add_mset comp_apply snd_conv)
      with inv have "mset (open_peers (listen_to_relay s) [])
          = add_mset (PeerId k) (mset (map (PeerId \<circ> snd) (remove1 (n, k) (running_conns s) @ asking s)))"
        by (simp add: registered_ok_def)
      from mset_open_peers[OF this] True show ?thesis by (simp add: ConnEnded registered_ok_def)
    qed (simp add: ConnEnded)
  qed (use inv in \<open>simp add: registered_ok_def\<close>)
qed

text \<open>
  The relay is told of a peer before the user is asked: the peers announced to it and not taken
  back are those of the connections that are run together with those that still wait for an answer.
\<close>

theorem peers_registered_before_approval:
  assumes "exec_events RelayHandle_listen es listen_init = Some s"
  shows "mset (open_peers (listen_to_relay s) []) = mset (map (PeerId \<circ> snd) (running_conns s @ asking s))"
  using registration_machine.exec_inv[OF _ _ assms] by (simp add: registered_ok_def listen_init_def)

theorem peers_registered_before_approval_witness:
  "\<exists>s. exec_events RelayHandle_listen ([ConnAccepted 0,
        ConnHandshaken 0 (Ok (RelayStaticKey [1], RelayConnectionHandle 4)) True] :: unit listen_event list) listen_init = Some s
    \<and> running_conns s = [] \<and> mset (open_peers (listen_to_relay s) []) = {#PeerId (RelayStaticKey [1])#}"
proof -
  obtain s where s: "exec_events RelayHandle_listen ([ConnAccepted 0,
        ConnHandshaken 0 (Ok (RelayStaticKey [1], RelayConnectionHandle 4)) True] :: unit listen_event list) listen_init = Some s"
    "running_conns s = []" "asking s = [(0, RelayStaticKey [1])]"
    by (simp add: listen_init_def RelayHandle_accept_def PeerConnection_new_def)
  have "mset (open_peers (listen_to_relay s) []) = {#PeerId (RelayStaticKey [1])#}"
    using peers_registered_before_approval[OF s(1)] s(2,3) by simp
  with s(1,2) show ?thesis by blast
qed

end
