(* ===== verification/Relay_Link.thy ===== *)
theory Relay_Link
  imports Relay_Handshake Relay_Handle
begin

text \<open>
  The rest of \<open>relay/src/relay/connection.rs\<close> and \<open>PeerConnection\<close> of \<open>relay/src/relay.rs\<close>: key pairs and
  how keys are shown, opening a connection on either side, the handshake as a method, and what the
  relay learns of the peer.
\<close>

section \<open>Key pairs\<close>

record noise_keypair =
  kp_private :: bytes
  kp_public :: bytes

datatype relay_keypair = RelayKeypair (keypair_of: noise_keypair)

definition PATTERN :: string where
  "PATTERN = ''Noise_IX_25519_ChaChaPoly_BLAKE2s''"

text \<open>
  \<open>snow::Builder\<close>: parsing the name of a handshake, a new key pair (whose outcome is given), and the
  handshake states of the two sides for a private key.
\<close>

record ('p, 'h, 'n) noise_builder =
  parse_params :: "string \<Rightarrow> ('p, 'n) result"
  generate_keypair :: "'p \<Rightarrow> (noise_keypair, 'n) result"
  build_initiator :: "'p \<Rightarrow> bytes \<Rightarrow> ('h, 'n) result"
  build_responder :: "'p \<Rightarrow> bytes \<Rightarrow> ('h, 'n) result"

text \<open>Both \<open>unwrap\<close> of \<open>generate\<close> are panics, \<open>None\<close>.\<close>

definition RelayKeypair_generate :: "('p, 'h, 'n) noise_builder \<Rightarrow> relay_keypair option" where
  "RelayKeypair_generate B =
     (case parse_params B PATTERN of
        Inl _ \<Rightarrow> None
      | Inr params \<Rightarrow>
          (case generate_keypair B params of
             Inl _ \<Rightarrow> None
           | Inr keypair \<Rightarrow> Some (RelayKeypair keypair)))"

text \<open>A slice as an array of 32 bytes; the conversion fails for any other length.\<close>

definition try_into_32 :: "bytes \<Rightarrow> bytes option" where
  "try_into_32 bs = (if length bs = 32 then Some bs else None)"

definition RelayKeypair_public :: "relay_keypair \<Rightarrow> relay_static_key option" where
  "RelayKeypair_public keypair = map_option RelayStaticKey (try_into_32 (kp_public (keypair_of keypair)))"

definition RelayKeypair_fmt :: "relay_keypair \<Rightarrow> string" where
  "RelayKeypair_fmt keypair = fmt_hex (kp_public (keypair_of keypair))"

text \<open>
  \<open>Debug\<close> as the standard library prints a tuple struct with one field, plain or, with the alternate
  flag, on lines of its own. The field is printed as \<open>Display\<close> prints it.
\<close>

definition debug_tuple :: "bool \<Rightarrow> string \<Rightarrow> string \<Rightarrow> string" where
  "debug_tuple alternate name field =
     (if alternate then name @ ''('' @ [CHR 0x0A] @ ''    '' @ field @ '','' @ [CHR 0x0A] @ '')''
      else name @ ''('' @ field @ '')'')"

definition RelayKeypair_debug :: "bool \<Rightarrow> relay_keypair \<Rightarrow> string" where
  "RelayKeypair_debug alternate keypair = debug_tuple alternate ''RelayKeypair'' (RelayKeypair_fmt keypair)"

definition RelayStaticKey_debug :: "bool \<Rightarrow> relay_static_key \<Rightarrow> string" where
  "RelayStaticKey_debug alternate key = debug_tuple alternate ''RelayStaticKey'' (RelayStaticKey_fmt key)"

definition PeerId_debug :: "bool \<Rightarrow> peer_id \<Rightarrow> string" where
  "PeerId_debug alternate p = debug_tuple alternate ''PeerId'' (RelayStaticKey_fmt (peer_key p))"

section \<open>Opening a connection\<close>

record 'h relay_connection =
  conn_peer_addr :: socket_addr
  conn_stream :: socket
  conn_handshake :: 'h
  conn_tx :: relay_connection_handle

text \<open>\<open>RelayConnection::new\<close>, with the handle of a new queue.\<close>

definition RelayConnection_new ::
  "os \<Rightarrow> socket_addr \<Rightarrow> socket \<Rightarrow> 'h \<Rightarrow> relay_connection_handle \<Rightarrow> ('h relay_connection, io_error) result"
where
  "RelayConnection_new os addr stream handshake tx =
     and_then (sys_on os (SetNodelay True) stream) (\<lambda>stream.
     Ok \<lparr>conn_peer_addr = addr, conn_stream = stream, conn_handshake = handshake, conn_tx = tx\<rparr>)"

definition RelayConnection_accept ::
  "('p, 'h, 'n) noise_builder \<Rightarrow> os \<Rightarrow> socket_addr \<Rightarrow> socket \<Rightarrow> relay_keypair \<Rightarrow> relay_connection_handle \<Rightarrow>
    ('h relay_connection, 'n relay_connect_error) result poll"
where
  "RelayConnection_accept B os addr stream keypair tx =
     (case parse_params B PATTERN of
        Inl _ \<Rightarrow> Panicked
      | Inr params \<Rightarrow> Ready (
          and_then (map_err RC_Encrypt (build_responder B params (kp_private (keypair_of keypair)))) (\<lambda>handshake.
          map_err RC_Io (RelayConnection_new os addr stream handshake tx))))"

text \<open>\<open>connect\<close>, given how connecting the socket went; \<open>None\<close> when the timer was first.\<close>

definition RelayConnection_connect ::
  "('p, 'h, 'n) noise_builder \<Rightarrow> os \<Rightarrow> (socket, io_error) result option \<Rightarrow> relay_keypair \<Rightarrow> relay_connection_handle \<Rightarrow>
    ('h relay_connection, 'n relay_connect_error) result poll"
where
  "RelayConnection_connect B os connected keypair tx =
     (case and_then (or_timeout connected) (\<lambda>stream. and_then (peer_addr_of os stream) (\<lambda>addr. Ok (stream, addr))) of
        Inl e \<Rightarrow> Ready (Err (RC_Io e))
      | Inr (stream, addr) \<Rightarrow>
          (case parse_params B PATTERN of
             Inl _ \<Rightarrow> Panicked
           | Inr params \<Rightarrow> Ready (
               and_then (map_err RC_Encrypt (build_initiator B params (kp_private (keypair_of keypair)))) (\<lambda>handshake.
               map_err RC_Io (RelayConnection_new os addr stream handshake tx)))))"

section \<open>The handshake\<close>

record 't established =
  est_peer_addr :: socket_addr
  est_transport :: 't
  est_input :: in_stream
  est_rx :: relay_connection_handle

text \<open>
  \<open>RelayConnection::handshake\<close>: the bytes that arrive, and the outcomes of the writes, are given. The
  connection keeps its address, its queue and what has arrived behind the handshake.
\<close>

definition RelayConnection_handshake ::
  "('h, 't, 'n) noise_handshake \<Rightarrow> in_stream \<Rightarrow> write_outcome list \<Rightarrow> 'h relay_connection \<Rightarrow>
    ('t established, 'n relay_connect_error) result poll \<times> bytes"
where
  "RelayConnection_handshake H input ws connection =
     (case handshake_loop H input ws (conn_handshake connection) of
        (Pending, out, _) \<Rightarrow> (Pending, out)
      | (Panicked, out, _) \<Rightarrow> (Panicked, out)
      | (Ready (Inl e), out, _) \<Rightarrow> (Ready (Err e), out)
      | (Ready (Inr transport), out, input) \<Rightarrow>
          (Ready (Ok \<lparr>est_peer_addr = conn_peer_addr connection, est_transport = transport,
                      est_input = input, est_rx = conn_tx connection\<rparr>), out))"

text \<open>
  \<open>peer_static\<close>, where \<open>remote\<close> is \<open>get_remote_static\<close> of the transport: a transport without a key of the
  other side, or one that has not 32 bytes, is a panic.
\<close>

definition peer_static :: "('t \<Rightarrow> bytes option) \<Rightarrow> 't established \<Rightarrow> relay_static_key option" where
  "peer_static remote connection =
     (case remote (est_transport connection) of
        None \<Rightarrow> None
      | Some key \<Rightarrow> map_option RelayStaticKey (try_into_32 key))"

section \<open>Peer connections\<close>

record 't peer_connection =
  pc_peer_id :: peer_id
  pc_connection :: "'t established"

datatype 'n peer_connection_error = PC_Connect "'n relay_connect_error" | PC_RelayClosed

text \<open>\<open>PeerConnection::new\<close> from the start of the handshake, with the message it sends to the relay.\<close>

definition PeerConnection_open ::
  "('h, 't, 'n) noise_handshake \<Rightarrow> ('t \<Rightarrow> bytes option) \<Rightarrow> in_stream \<Rightarrow> write_outcome list \<Rightarrow> 'h relay_connection \<Rightarrow> bool \<Rightarrow>
    ('t peer_connection, 'n peer_connection_error) result poll \<times> bytes \<times> message list"
where
  "PeerConnection_open H remote input ws connection relay_open =
     (let handle = conn_tx connection in
      case RelayConnection_handshake H input ws connection of
        (Pending, out) \<Rightarrow> (Pending, out, [])
      | (Panicked, out) \<Rightarrow> (Panicked, out, [])
      | (Ready (Inl e), out) \<Rightarrow> (Ready (Err (PC_Connect e)), out, [])
      | (Ready (Inr connection), out) \<Rightarrow>
          (case peer_static remote connection of
             None \<Rightarrow> (Panicked, out, [])
           | Some key \<Rightarrow>
               (if relay_open
                then (Ready (Ok \<lparr>pc_peer_id = PeerId key, pc_connection = connection\<rparr>), out, [AddPeer (PeerId key) handle])
                else (Ready (Err PC_RelayClosed), out, []))))"

text \<open>
  \<open>PeerConnection::run\<close>: what the connection receives goes to the relay, as long as it takes messages.
\<close>

definition relay_send :: "(message list \<Rightarrow> bool) \<Rightarrow> message \<Rightarrow> message list \<Rightarrow> (unit, unit) result \<times> message list" where
  "relay_send relay_open m sent = (if relay_open sent then (Ok (), sent @ [m]) else (Err (), sent))"

definition PeerConnection_run ::
  "'d codec \<Rightarrow> ('t, 'n) noise_transport \<Rightarrow> (message list \<Rightarrow> bool) \<Rightarrow> peer_id \<Rightarrow> connection_event list \<Rightarrow> 't \<Rightarrow> message list \<Rightarrow>
    ('n, 'd, unit) loop_end \<times> bytes \<times> 't \<times> message list"
where
  "PeerConnection_run C T relay_open p es t sent =
     EstablishedRelayConnection_run C T (\<lambda>m. relay_send relay_open (Recv p m)) es t sent"

section \<open>The key of the other side\<close>

text \<open>
  What the handshake \<open>IX\<close> on 25519 keys promises: the pattern's name is known; a new handshake is not
  finished and has no key of the other side; each of the two messages carries the static key of its
  sender, 32 bytes; a side that has not read one is not finished by writing; the transport keeps the key.
\<close>

locale ix_noise =
  fixes B :: "('p, 'h, 'n) noise_builder"
    and H :: "('h, 't, 'n) noise_handshake"
    and remote_h :: "'h \<Rightarrow> bytes option"
    and remote :: "'t \<Rightarrow> bytes option"
  assumes pattern_known: "\<exists>params. parse_params B PATTERN = Ok params"
    and built: "build_initiator B params key = Ok h \<or> build_responder B params key = Ok h \<Longrightarrow>
      \<not> hs_finished H h \<and> remote_h h = None"
    and write_keeps: "hs_write H h p n = (Ok c, h') \<Longrightarrow> remote_h h' = remote_h h \<and> length c \<le> n"
    and write_unfinished: "hs_write H h p n = (Ok c, h') \<Longrightarrow> remote_h h = None \<Longrightarrow> \<not> hs_finished H h'"
    and read_key: "hs_read H h c n = (Ok p, h') \<Longrightarrow> \<exists>key. remote_h h' = Some key \<and> length key = 32"
    and transport_key: "hs_transport H h = Ok t \<Longrightarrow> remote t = remote_h h"
begin

definition remote_ok :: "'h \<Rightarrow> bool" where
  "remote_ok h \<longleftrightarrow> (\<forall>key. remote_h h = Some key \<longrightarrow> length key = 32) \<and> (hs_finished H h \<longrightarrow> remote_h h \<noteq> None)"

lemma remote_ok_built:
  "build_initiator B params key = Ok h \<or> build_responder B params key = Ok h \<Longrightarrow> remote_ok h"
  using built by (fastforce simp: remote_ok_def)

lemma remote_ok_send:
  assumes "remote_ok h" "handshake_send H ws h = (Ready (Ok u), out, ws', h')"
  shows "remote_ok h'"
proof (cases "hs_my_turn H h")
  case True
  with assms(2) obtain c where c: "hs_write H h [] (MESSAGE_BUFFER_SIZE - 2) = (Ok c, h')"
    by (auto simp: handshake_send_def split: prod.splits sum.splits if_splits list.splits)
  from write_keeps[OF c] write_unfinished[OF c] assms(1) show ?thesis by (auto simp: remote_ok_def)
qed (use assms in \<open>simp add: handshake_send_def\<close>)

lemma remote_ok_receive:
  assumes "remote_ok h" "handshake_receive H st h = Ready (Ok (st', h'))"
  shows "remote_ok h'"
proof (cases "hs_finished H h")
  case False
  with assms(2) obtain data p where "hs_read H h data 0 = (Ok p, h')"
    by (auto simp: handshake_receive_def split: poll.splits sum.splits prod.splits)
  from read_key[OF this] show ?thesis by (auto simp: remote_ok_def)
qed (use assms in \<open>simp add: handshake_receive_def\<close>)

lemma handshake_loop_key:
  assumes "remote_ok h" "handshake_loop H st ws h = (Ready (Ok t), out, st')"
  shows "\<exists>key. remote t = Some key \<and> length key = 32"
proof -
  have "H' = H \<Longrightarrow> remote_ok h \<Longrightarrow> handshake_loop H' st ws h = (Ready (Ok t), out, st') \<Longrightarrow> ?thesis" for H'
  proof (induction H' st ws h arbitrary: out rule: handshake_loop.induct)
    case (1 H' st ws h)
    note H' = "1.prems"(1)
    show ?case
    proof (cases "hs_finished H h")
      case True
      then have "hs_transport H h = Ok t"
        using "1.prems"(3) H' by (subst (asm) handshake_loop.simps) (auto split: sum.splits)
      from transport_key[OF this] True "1.prems"(2) show ?thesis by (auto simp: remote_ok_def)
    next
      case False
      obtain r out1 ws1 h1 where send: "handshake_send H ws h = (r, out1, ws1, h1)" by (metis prod_cases4)
      from "1.prems"(3) False send H' obtain u where r: "r = Ready (Ok u)"
        by (subst (asm) handshake_loop.simps) (auto split: poll.splits sum.splits)
      from "1.prems"(3) False send r H' obtain st2 h2 out2 where recv: "handshake_receive H st h1 = Ready (Ok (st2, h2))"
        and loop: "handshake_loop H st2 ws1 h2 = (Ready (Ok t), out2, st')"
        by (subst (asm) handshake_loop.simps) (auto split: poll.splits sum.splits prod.splits)
      have "remote_ok h2"
        by (rule remote_ok_receive[OF remote_ok_send[OF "1.prems"(2) send[unfolded r]] recv])
      from "1.IH"[unfolded H', OF False send[symmetric] r refl refl refl recv refl refl refl this loop] show ?thesis .
    qed
  qed
  with assms show ?thesis by blast
qed

end

text \<open>A connection that was opened on either side.\<close>

definition opened ::
  "('p, 'h, 'n) noise_builder \<Rightarrow> os \<Rightarrow> relay_keypair \<Rightarrow> relay_connection_handle \<Rightarrow> 'h relay_connection \<Rightarrow> bool"
where
  "opened B os keypair tx conn \<longleftrightarrow>
     (\<exists>addr stream. RelayConnection_accept B os addr stream keypair tx = Ready (Ok conn))
     \<or> (\<exists>connected. RelayConnection_connect B os connected keypair tx = Ready (Ok conn))"

lemma connect_Ready_Ok:
  assumes "RelayConnection_connect B os connected keypair tx = Ready (Ok conn)"
  obtains params stream addr h where "parse_params B PATTERN = Ok params"
    "build_initiator B params (kp_private (keypair_of keypair)) = Ok h" "RelayConnection_new os addr stream h tx = Ok conn"
  using assms
  by (cases "or_timeout connected"; cases "peer_addr_of os (projr (or_timeout connected))")
    (auto simp: RelayConnection_connect_def split: sum.splits)

lemma opened_cases:
  assumes "opened B os keypair tx conn"
  shows "conn_tx conn = tx \<and> (\<exists>params. build_initiator B params (kp_private (keypair_of keypair)) = Ok (conn_handshake conn)
    \<or> build_responder B params (kp_private (keypair_of keypair)) = Ok (conn_handshake conn))"
  using assms unfolding opened_def
proof (elim disjE exE)
  fix connected
  assume "RelayConnection_connect B os connected keypair tx = Ready (Ok conn)"
  then show ?thesis by (rule connect_Ready_Ok) (auto simp: RelayConnection_new_def)
qed (auto simp: RelayConnection_accept_def RelayConnection_new_def split: sum.splits)

context ix_noise
begin

lemma opened_no_panic:
  "RelayConnection_accept B os addr stream keypair tx \<noteq> Panicked"
  "RelayConnection_connect B os connected keypair tx \<noteq> Panicked"
  using pattern_known
  by (auto simp: RelayConnection_accept_def RelayConnection_connect_def split: sum.split prod.split)

lemma handshake_no_panic: "fst (handshake_loop H st ws h) \<noteq> Panicked"
  by (rule handshake_loop_no_panic) (use write_keeps in blast)

lemma handshake_static:
  assumes "opened B os keypair tx conn" "RelayConnection_handshake H input ws conn = (Ready (Ok est), out)"
  obtains key where "peer_static remote est = Some (RelayStaticKey key)" "length key = 32"
proof -
  have "remote_ok (conn_handshake conn)"
    using opened_cases[OF assms(1)] remote_ok_built by blast
  moreover obtain st' where "handshake_loop H input ws (conn_handshake conn) = (Ready (Ok (est_transport est)), out, st')"
    using assms(2) by (auto simp: RelayConnection_handshake_def split: prod.splits poll.splits sum.splits)
  ultimately obtain key where "remote (est_transport est) = Some key" "length key = 32"
    using handshake_loop_key by blast
  then show ?thesis by (intro that[of key]) (simp_all add: peer_static_def try_into_32_def)
qed

lemma open_typed:
  assumes "opened B os keypair tx conn" "PeerConnection_open H remote input ws conn relay_open = (r, out, ms)"
  shows "r \<noteq> Panicked \<and> (\<forall>m \<in> set ms. \<exists>key. m = AddPeer (PeerId (RelayStaticKey key)) tx \<and> length key = 32)"
proof -
  obtain hr hout where h: "RelayConnection_handshake H input ws conn = (hr, hout)" by fastforce
  have "hr \<noteq> Panicked"
    using h handshake_no_panic[of input ws "conn_handshake conn"]
    by (auto simp: RelayConnection_handshake_def split: prod.splits poll.splits sum.splits)
  moreover have ?thesis if ok: "hr = Ready (Ok est)" for est
  proof -
    from assms(1) h[unfolded ok] obtain key where "peer_static remote est = Some (RelayStaticKey key)" "length key = 32"
      by (rule handshake_static)
    then show ?thesis
      using assms(2) h ok opened_cases[OF assms(1)] by (auto simp: PeerConnection_open_def split: if_splits)
  qed
  ultimately show ?thesis
    using assms(2) h by (cases hr) (auto simp: PeerConnection_open_def split: sum.splits)
qed

end

section \<open>Two relays get to know each other\<close>

text \<open>
  \<open>handshake\<close> and \<open>PeerConnection::new\<close> when the loop has completed and the other side's key is there.
\<close>

lemma PeerConnection_open_Ready:
  assumes "handshake_loop H input ws (conn_handshake conn) = (Ready (Ok t), out, rest)"
    and "remote t = Some key" "length key = 32"
  shows "PeerConnection_open H remote input ws conn True
    = (Ready (Ok \<lparr>pc_peer_id = PeerId (RelayStaticKey key), pc_connection =
         \<lparr>est_peer_addr = conn_peer_addr conn, est_transport = t, est_input = rest, est_rx = conn_tx conn\<rparr>\<rparr>),
       out, [AddPeer (PeerId (RelayStaticKey key)) (conn_tx conn)])"
  using assms by (simp add: PeerConnection_open_def RelayConnection_handshake_def peer_static_def try_into_32_def)

text \<open>A relay that the operating system refuses nothing.\<close>

definition os_willing :: "os \<Rightarrow> bool" where
  "os_willing os \<longleftrightarrow> (\<forall>c. sys os c = Ok ())"

lemma willing_sys [simp]: "os_willing os \<Longrightarrow> sys os c = Ok ()"
  by (simp add: os_willing_def)

lemma connect_willing:
  assumes "os_willing os" "parse_params B PATTERN = Ok params" "build_initiator B params (kp_private k) = Ok h"
  shows "RelayConnection_connect B os (Some (Ok stream)) (RelayKeypair k) tx = Ready (Ok
    \<lparr>conn_peer_addr = os_peer_addr os, conn_stream = stream @ [SetNodelay True], conn_handshake = h, conn_tx = tx\<rparr>)"
  using assms by (simp add: RelayConnection_connect_def RelayConnection_new_def sys_on_def peer_addr_of_def)

lemma accept_willing:
  assumes "os_willing os" "parse_params B PATTERN = Ok params" "build_responder B params (kp_private k) = Ok h"
  shows "RelayConnection_accept B os addr stream (RelayKeypair k) tx = Ready (Ok
    \<lparr>conn_peer_addr = addr, conn_stream = stream @ [SetNodelay True], conn_handshake = h, conn_tx = tx\<rparr>)"
  using assms by (simp add: RelayConnection_accept_def RelayConnection_new_def sys_on_def)

text \<open>
  C16: two relays get to know each other. When one connects and the other accepts and the handshake goes
  its way, each side completes it with what the other has sent, tells its relay of a peer under the
  other's public key, with the queue of this connection, and goes on with what arrives behind the
  handshake. The key as it is shown for the peer is the one the other relay shows for itself.
\<close>

theorem relays_introduce_each_other:
  assumes "parse_params B PATTERN = Ok params"
    and "build_initiator B params (kp_private ki) = Ok i" "build_responder B params (kp_private kr) = Ok r"
    and "ix_handshake H i r ti tr" "remote ti = Some (kp_public kr)" "remote tr = Some (kp_public ki)"
    and "length (kp_public ki) = 32" "length (kp_public kr) = 32" "os_willing osi" "os_willing osr"
  shows "\<exists>ci cr f1 f2.
      RelayConnection_connect B osi (Some (Ok si)) (RelayKeypair ki) txi = Ready (Ok ci)
    \<and> RelayConnection_accept B osr addr sr (RelayKeypair kr) txr = Ready (Ok cr)
    \<and> (\<forall>rest e. \<exists>pi pr.
          PeerConnection_open H remote \<lparr>in_bytes = f2 @ rest, in_end = e\<rparr> [None] ci True
            = (Ready (Ok pi), f1, [AddPeer (pc_peer_id pi) txi])
        \<and> PeerConnection_open H remote \<lparr>in_bytes = f1 @ rest, in_end = e\<rparr> [None] cr True
            = (Ready (Ok pr), f2, [AddPeer (pc_peer_id pr) txr])
        \<and> est_transport (pc_connection pi) = ti \<and> est_transport (pc_connection pr) = tr
        \<and> in_bytes (est_input (pc_connection pi)) = rest \<and> in_bytes (est_input (pc_connection pr)) = rest
        \<and> RelayStaticKey_fmt (peer_key (pc_peer_id pi)) = RelayKeypair_fmt (RelayKeypair kr)
        \<and> RelayStaticKey_fmt (peer_key (pc_peer_id pr)) = RelayKeypair_fmt (RelayKeypair ki))"
proof -
  obtain f1 f2 where f:
    "\<And>rest e. handshake_loop H \<lparr>in_bytes = f2 @ rest, in_end = e\<rparr> [None] i = (Ready (Ok ti), f1, \<lparr>in_bytes = rest, in_end = e\<rparr>)"
    "\<And>rest e. handshake_loop H \<lparr>in_bytes = f1 @ rest, in_end = e\<rparr> [None] r = (Ready (Ok tr), f2, \<lparr>in_bytes = rest, in_end = e\<rparr>)"
    using handshake_completes[OF assms(4)] by blast
  note ci = connect_willing[OF assms(9,1,2), of si txi] and cr = accept_willing[OF assms(10,1,3), of addr sr txr]
  show ?thesis
    by (rule exI, rule exI, rule exI[of _ f1], rule exI[of _ f2], rule conjI[OF ci], rule conjI[OF cr])
      (simp add: PeerConnection_open_Ready[where remote = remote and t = ti, OF _ assms(5,8)]
        PeerConnection_open_Ready[where remote = remote and t = tr, OF _ assms(6,7)] f RelayKeypair_fmt_def)
qed

section \<open>A reference handshake\<close>

text \<open>
  A handshake without secrets that meets the laws: the states count the messages, a message is the
  sender's key, and a key pair has the same bytes twice.
\<close>

record ix_state =
  ix_initiator :: bool
  ix_done :: nat
  ix_own :: bytes
  ix_remote :: "bytes option"

definition handshake_ref :: "(ix_state, bytes option, unit) noise_handshake" where
  "handshake_ref =
     \<lparr>hs_finished = (\<lambda>h. 2 \<le> ix_done h \<and> ix_remote h \<noteq> None),
      hs_my_turn = (\<lambda>h. ix_done h = (if ix_initiator h then 0 else 1)),
      hs_write = (\<lambda>h p n. if length (ix_own h) \<le> n then (Ok (ix_own h), h\<lparr>ix_done := Suc (ix_done h)\<rparr>) else (Err (), h)),
      hs_read = (\<lambda>h c n. if length c = 32 then (Ok [], h\<lparr>ix_done := Suc (ix_done h), ix_remote := Some c\<rparr>) else (Err (), h)),
      hs_transport = (\<lambda>h. Ok (ix_remote h))\<rparr>"

definition builder_ref :: "(unit, ix_state, unit) noise_builder" where
  "builder_ref =
     \<lparr>parse_params = (\<lambda>_. Ok ()),
      generate_keypair = (\<lambda>_. Ok \<lparr>kp_private = replicate 32 1, kp_public = replicate 32 1\<rparr>),
      build_initiator = (\<lambda>_ key. Ok \<lparr>ix_initiator = True, ix_done = 0, ix_own = key, ix_remote = None\<rparr>),
      build_responder = (\<lambda>_ key. Ok \<lparr>ix_initiator = False, ix_done = 0, ix_own = key, ix_remote = None\<rparr>)\<rparr>"

interpretation ix_ref: ix_noise builder_ref handshake_ref ix_remote id
  by unfold_locales (auto simp: builder_ref_def handshake_ref_def split: if_splits)

lemma ix_handshake_ref:
  assumes "length ki = 32" "length kr = 32"
  shows "ix_handshake handshake_ref \<lparr>ix_initiator = True, ix_done = 0, ix_own = ki, ix_remote = None\<rparr>
    \<lparr>ix_initiator = False, ix_done = 0, ix_own = kr, ix_remote = None\<rparr> (Some kr) (Some ki)"
  unfolding ix_handshake_def
  by (rule exI[of _ ki], rule exI[of _ "\<lparr>ix_initiator = True, ix_done = 1, ix_own = ki, ix_remote = None\<rparr>"],
      rule exI[of _ "\<lparr>ix_initiator = False, ix_done = 1, ix_own = kr, ix_remote = Some ki\<rparr>"], rule exI[of _ kr],
      rule exI[of _ "\<lparr>ix_initiator = False, ix_done = 2, ix_own = kr, ix_remote = Some ki\<rparr>"],
      rule exI[of _ "\<lparr>ix_initiator = True, ix_done = 2, ix_own = ki, ix_remote = Some kr\<rparr>"])
    (use assms in \<open>simp add: handshake_ref_def\<close>)

definition keypair_ref :: "u8 \<Rightarrow> noise_keypair" where
  "keypair_ref b = \<lparr>kp_private = replicate 32 b, kp_public = replicate 32 b\<rparr>"

definition os_ref :: os where
  "os_ref = \<lparr>sys = \<lambda>_. Ok (), os_local_addr = V4 1 5000, os_peer_addr = V4 2 25566\<rparr>"

lemma os_willing_ref: "os_willing os_ref"
  by (simp add: os_willing_def os_ref_def)

text \<open>
  C24: a peer is known by a key of 32 bytes. Whatever arrives on a connection opened on either side, and
  however writing goes, setting the peer connection up does not panic (the conversions of the key to
  an array of 32 bytes succeed), and what the relay is told is the peer's key, of 32 bytes and so 64
  characters when shown, with the queue of this connection.
\<close>

theorem peer_key_typed:
  fixes B :: "('p, 'h, 'n) noise_builder" and H :: "('h, 't, 'n) noise_handshake"
  assumes "ix_noise B H remote_h remote" "opened B os keypair tx conn"
    and "PeerConnection_open H remote input ws conn relay_open = (r, out, ms)"
  shows "r \<noteq> Panicked \<and> (\<forall>m \<in> set ms. \<exists>key. m = AddPeer (PeerId key) tx
    \<and> length (key_bytes key) = 32 \<and> length (RelayStaticKey_fmt key) = 64)"
  using ix_noise.open_typed[OF assms] by fastforce

theorem relays_introduce_each_other_witness:
  "\<exists>ci cr f1 f2.
      RelayConnection_connect builder_ref os_ref (Some (Ok [])) (RelayKeypair (keypair_ref 1)) (RelayConnectionHandle 7) = Ready (Ok ci)
    \<and> RelayConnection_accept builder_ref os_ref (V4 1 40000) [] (RelayKeypair (keypair_ref 2)) (RelayConnectionHandle 8) = Ready (Ok cr)
    \<and> (\<forall>rest e. \<exists>pi pr.
          PeerConnection_open handshake_ref id \<lparr>in_bytes = f2 @ rest, in_end = e\<rparr> [None] ci True
            = (Ready (Ok pi), f1, [AddPeer (pc_peer_id pi) (RelayConnectionHandle 7)])
        \<and> PeerConnection_open handshake_ref id \<lparr>in_bytes = f1 @ rest, in_end = e\<rparr> [None] cr True
            = (Ready (Ok pr), f2, [AddPeer (pc_peer_id pr) (RelayConnectionHandle 8)])
        \<and> est_transport (pc_connection pi) = Some (replicate 32 2) \<and> est_transport (pc_connection pr) = Some (replicate 32 1)
        \<and> in_bytes (est_input (pc_connection pi)) = rest \<and> in_bytes (est_input (pc_connection pr)) = rest
        \<and> RelayStaticKey_fmt (peer_key (pc_peer_id pi)) = RelayKeypair_fmt (RelayKeypair (keypair_ref 2))
        \<and> RelayStaticKey_fmt (peer_key (pc_peer_id pr)) = RelayKeypair_fmt (RelayKeypair (keypair_ref 1)))"
  by (rule relays_introduce_each_other[OF _ _ _ ix_handshake_ref _ _ _ _ os_willing_ref os_willing_ref])
    (simp_all add: builder_ref_def keypair_ref_def)

theorem peer_key_typed_witness:
  "\<exists>conn r out ms.
      RelayConnection_accept builder_ref os_ref (V4 1 40000) [] (RelayKeypair (keypair_ref 2)) (RelayConnectionHandle 8) = Ready (Ok conn)
    \<and> PeerConnection_open handshake_ref id \<lparr>in_bytes = put_u16 32 @ replicate 32 9, in_end = None\<rparr> [None] conn True = (r, out, ms)
    \<and> r \<noteq> Panicked \<and> (\<forall>m \<in> set ms. \<exists>key. m = AddPeer (PeerId key) (RelayConnectionHandle 8)
        \<and> length (key_bytes key) = 32 \<and> length (RelayStaticKey_fmt key) = 64)"
proof -
  obtain conn where conn: "RelayConnection_accept builder_ref os_ref (V4 1 40000) [] (RelayKeypair (keypair_ref 2)) (RelayConnectionHandle 8)
      = Ready (Ok conn)"
    using accept_willing[OF os_willing_ref, of builder_ref "()" "keypair_ref 2"] by (simp add: builder_ref_def)
  then have "opened builder_ref os_ref (RelayKeypair (keypair_ref 2)) (RelayConnectionHandle 8) conn"
    by (auto simp: opened_def)
  from peer_key_typed[OF ix_ref.ix_noise_axioms this] conn show ?thesis by (metis prod_cases3)
qed

end
