(* ===== verification/Protobuf.thy ===== *)
theory Protobuf
  imports Relay_Connection
begin

text \<open>
  The protobuf wire format for the messages of \<open>protocol/src/minecraft-relay.proto\<close>, as the format's
  documentation describes it: the code that implements it is generated when the program is built. A
  message is a sequence of fields, each a key (number and wire type) and a variable-length integer or a
  length-prefixed byte string; fields with default values are left out, except that the chosen
  alternative of the \<open>oneof\<close> is always written. The format meets the laws that the connection relies on.
\<close>

section \<open>Integers and fields\<close>

fun varint :: "nat \<Rightarrow> bytes" where
  "varint n = (if n < 128 then [of_nat n] else of_nat (n mod 128 + 128) # varint (n div 128))"

declare varint.simps [simp del]

fun read_varint :: "bytes \<Rightarrow> (nat \<times> bytes) option" where
  "read_varint [] = None"
| "read_varint (b # bs) =
     (if unat b < 128 then Some (unat b, bs)
      else map_option (\<lambda>(n, rest). (unat b - 128 + 128 * n, rest)) (read_varint bs))"

datatype field = VarInt nat | Len bytes

fun field_bytes :: "nat \<times> field \<Rightarrow> bytes" where
  "field_bytes (k, VarInt n) = varint (8 * k) @ varint n"
| "field_bytes (k, Len bs) = varint (8 * k + 2) @ varint (length bs) @ bs"

text \<open>The value of a field by its wire type; 64-bit and 32-bit fields do not occur here.\<close>

definition read_value :: "nat \<Rightarrow> bytes \<Rightarrow> (field \<times> bytes) option" where
  "read_value wire bs =
     (if wire = 0 then map_option (\<lambda>(n, rest). (VarInt n, rest)) (read_varint bs)
      else if wire = 2 then
        Option.bind (read_varint bs) (\<lambda>(n, rest).
          if n \<le> length rest then Some (Len (take n rest), drop n rest) else None)
      else None)"

lemma read_varint_shorter: "read_varint bs = Some (n, rest) \<Longrightarrow> length rest < length bs"
  by (induction bs arbitrary: n rest) (fastforce split: if_splits)+

lemma read_value_shorter: "read_value w bs = Some (v, rest) \<Longrightarrow> length rest < length bs"
  by (auto simp: read_value_def bind_eq_Some_conv split: if_splits dest!: read_varint_shorter)

function read_fields :: "bytes \<Rightarrow> (nat \<times> field) list option" where
  "read_fields bs =
     (if bs = [] then Some []
      else case read_varint bs of
        None \<Rightarrow> None
      | Some (key, bs) \<Rightarrow>
          (case read_value (key mod 8) bs of
             None \<Rightarrow> None
           | Some (v, bs) \<Rightarrow> map_option (Cons (key div 8, v)) (read_fields bs)))"
  by pat_completeness auto
termination
  by (relation "measure length") (auto dest!: read_varint_shorter read_value_shorter)

declare read_fields.simps [simp del]

lemma read_varint_varint: "read_varint (varint n @ rest) = Some (n, rest)"
proof (induction n rule: varint.induct)
  case (1 n)
  show ?case
  proof (cases "n < 128")
    case True
    then show ?thesis by (simp add: varint.simps unat_of_nat take_bit_nat_eq_self)
  next
    case False
    have "n mod 128 < 128" by simp
    then have "unat (of_nat (n mod 128 + 128) :: u8) = n mod 128 + 128"
      by (subst unat_of_nat) (simp add: take_bit_nat_eq_self del: of_nat_add)
    with 1 False show ?thesis by (simp add: varint.simps[of n])
  qed
qed

lemma read_fields_Nil [simp]: "read_fields [] = Some []"
  by (simp add: read_fields.simps)

lemma varint_not_Nil [simp]: "varint n \<noteq> []"
  by (simp add: varint.simps)

lemma read_fields_field: "read_fields (field_bytes f @ rest) = map_option (Cons f) (read_fields rest)"
proof (cases f)
  case (Pair k v)
  have "(8 * k + 2) mod 8 = 2" "(8 * k + 2) div 8 = k" by presburger+
  with Pair show ?thesis
    by (cases v) (simp_all add: read_fields.simps[of "_ @ _"] read_varint_varint read_value_def)
qed

lemma read_fields_concat: "read_fields (concat (map field_bytes fs)) = Some fs"
  by (induction fs) (simp_all add: read_fields_field)

section \<open>Messages\<close>

definition uint_field :: "nat \<Rightarrow> u64 \<Rightarrow> (nat \<times> field) list" where
  "uint_field k v = (if v = 0 then [] else [(k, VarInt (unat v))])"

definition bool_field :: "nat \<Rightarrow> bool \<Rightarrow> (nat \<times> field) list" where
  "bool_field k v = (if v then [(k, VarInt 1)] else [])"

definition bytes_field :: "nat \<Rightarrow> bytes \<Rightarrow> (nat \<times> field) list" where
  "bytes_field k v = (if v = [] then [] else [(k, Len v)])"

text \<open>The last value of a field counts; a field of another wire type is an error.\<close>

fun get_field :: "nat \<Rightarrow> (nat \<times> field) list \<Rightarrow> field \<Rightarrow> field" where
  "get_field k [] d = d"
| "get_field k ((j, v) # fs) d = get_field k fs (if j = k then v else d)"

fun as_uint :: "field \<Rightarrow> u64 option" where
  "as_uint (VarInt n) = Some (of_nat n)"
| "as_uint (Len _) = None"

fun as_bytes :: "field \<Rightarrow> bytes option" where
  "as_bytes (Len bs) = Some bs"
| "as_bytes (VarInt _) = None"

fun inner_fields :: "relay_inner \<Rightarrow> nat \<times> (nat \<times> field) list" where
  "inner_fields (Game g) = (1, uint_field 1 (rgm_id g) @ bytes_field 2 (rgm_motd g) @ uint_field 3 (rgm_hops g))"
| "inner_fields (Connect c) = (2, uint_field 1 (rc_game_id c) @ uint_field 2 (rc_connection_id c) @ uint_field 3 (rc_hops c))"
| "inner_fields (Data d) = (3, uint_field 1 (rd_connection_id d) @ bool_field 2 (rd_connection_local d) @ bytes_field 3 (rd_data d))"
| "inner_fields (CloseConnection c) = (4, uint_field 1 (rcc_connection_id c) @ bool_field 2 (rcc_connection_local c))"

definition fields_bytes :: "(nat \<times> field) list \<Rightarrow> bytes" where
  "fields_bytes fs = concat (map field_bytes fs)"

definition message_bytes :: "relay_message \<Rightarrow> bytes" where
  "message_bytes m =
     (case inner m of
        None \<Rightarrow> []
      | Some r \<Rightarrow> (let (k, fs) = inner_fields r in field_bytes (k, Len (fields_bytes fs))))"

definition uint_at :: "nat \<Rightarrow> (nat \<times> field) list \<Rightarrow> u64 option" where
  "uint_at k fs = as_uint (get_field k fs (VarInt 0))"

definition bytes_at :: "nat \<Rightarrow> (nat \<times> field) list \<Rightarrow> bytes option" where
  "bytes_at k fs = as_bytes (get_field k fs (Len []))"

definition inner_of :: "nat \<Rightarrow> (nat \<times> field) list \<Rightarrow> relay_inner option option" where
  "inner_of k fs =
     (if k = 1 then Option.bind (uint_at 1 fs) (\<lambda>i. Option.bind (bytes_at 2 fs) (\<lambda>m. Option.bind (uint_at 3 fs) (\<lambda>h.
        Some (Some (Game \<lparr>rgm_id = i, rgm_motd = m, rgm_hops = h\<rparr>)))))
      else if k = 2 then Option.bind (uint_at 1 fs) (\<lambda>i. Option.bind (uint_at 2 fs) (\<lambda>c. Option.bind (uint_at 3 fs) (\<lambda>h.
        Some (Some (Connect \<lparr>rc_game_id = i, rc_connection_id = c, rc_hops = h\<rparr>)))))
      else if k = 3 then Option.bind (uint_at 1 fs) (\<lambda>i. Option.bind (uint_at 2 fs) (\<lambda>l. Option.bind (bytes_at 3 fs) (\<lambda>d.
        Some (Some (Data \<lparr>rd_connection_id = i, rd_connection_local = (l \<noteq> 0), rd_data = d\<rparr>)))))
      else if k = 4 then Option.bind (uint_at 1 fs) (\<lambda>i. Option.bind (uint_at 2 fs) (\<lambda>l.
        Some (Some (CloseConnection \<lparr>rcc_connection_id = i, rcc_connection_local = (l \<noteq> 0)\<rparr>))))
      else Some None)"

text \<open>The fields of the outer message: each known one replaces the content, others are skipped.\<close>

fun read_inner :: "(nat \<times> field) list \<Rightarrow> relay_inner option \<Rightarrow> relay_inner option option" where
  "read_inner [] r = Some r"
| "read_inner ((k, v) # fs) r =
     (if k \<notin> {1, 2, 3, 4} then read_inner fs r
      else Option.bind (as_bytes v) (\<lambda>bs. Option.bind (read_fields bs) (\<lambda>inner_fs.
             Option.bind (inner_of k inner_fs) (read_inner fs))))"

definition read_message :: "bytes \<Rightarrow> relay_message option" where
  "read_message bs = Option.bind (read_fields bs) (\<lambda>fs. map_option (\<lambda>r. \<lparr>inner = r\<rparr>) (read_inner fs None))"

definition protobuf :: "unit codec" where
  "protobuf =
     \<lparr>encoded_len = (\<lambda>m. length (message_bytes m)),
      encode_msg = (\<lambda>m n. if length (message_bytes m) \<le> n then Some (message_bytes m) else None),
      decode_msg = (\<lambda>bs. case read_message bs of None \<Rightarrow> Err () | Some m \<Rightarrow> Ok m)\<rparr>"

lemma inner_of_fields: "inner_of (fst (inner_fields r)) (snd (inner_fields r)) = Some (Some r)"
  by (cases r) (simp_all add: inner_of_def uint_at_def bytes_at_def uint_field_def bool_field_def bytes_field_def)

lemma read_message_bytes: "read_message (message_bytes m) = Some m"
proof (cases "inner m")
  case None
  then show ?thesis by (cases m) (simp add: message_bytes_def read_message_def)
next
  case (Some r)
  obtain k fs where r: "inner_fields r = (k, fs)" by fastforce
  then have k: "k \<in> {1, 2, 3, 4}" by (cases r) auto
  have "read_fields (message_bytes m) = Some [(k, Len (fields_bytes fs))]"
    using read_fields_field[of "(k, Len (fields_bytes fs))" "[]"] by (simp add: message_bytes_def Some r)
  moreover have "read_inner [(k, Len (fields_bytes fs))] None = Some (Some r)"
    using k inner_of_fields[of r] by (auto simp: fields_bytes_def read_fields_concat r)
  ultimately show ?thesis using Some by (cases m) (simp add: read_message_def)
qed

interpretation protobuf: message_codec protobuf
proof
  show "\<exists>bs. encode_msg protobuf m n = Some bs \<and> length bs = encoded_len protobuf m \<and> decode_msg protobuf bs = Ok m"
    if "encoded_len protobuf m \<le> n" for m n
    using that by (simp add: protobuf_def read_message_bytes)
  show "decode_msg protobuf [] = Ok \<lparr>inner = None\<rparr>"
    by (simp add: protobuf_def read_message_def)
qed

section \<open>A transport that meets the laws\<close>

text \<open>Sixteen bytes are added and removed; there is no secrecy, which no property here is about.\<close>

definition noise_ref :: "(unit, unit) noise_transport" where
  "noise_ref =
     \<lparr>tr_write = (\<lambda>t p n. (if length p + 16 \<le> 65535 \<and> length p + 16 \<le> n then Ok (p @ replicate 16 0) else Err (), t)),
      tr_read = (\<lambda>t c n. (if 16 \<le> length c \<and> length c \<le> n + 16 then Ok (take (length c - 16) c) else Err (), t))\<rparr>"

lemma noise_session_ref: "noise_session noise_ref (\<lambda>_ _. True)"
  by (auto simp: noise_session_def noise_ref_def)

definition example_message :: relay_message where
  "example_message = \<lparr>inner = Some (Data \<lparr>rd_connection_id = 300, rd_connection_local = False, rd_data = [1, 2]\<rparr>)\<rparr>"

lemma example_bytes: "message_bytes example_message = [26, 7, 8, 172, 2, 26, 2, 1, 2]"
  by (simp add: message_bytes_def example_message_def uint_field_def bool_field_def bytes_field_def fields_bytes_def
      varint.simps)

lemma example_len: "encoded_len protobuf example_message = 9"
  by (simp add: protobuf_def example_bytes)

theorem frames_roundtrip_witness:
  "\<exists>out. write_loop protobuf noise_ref (map (\<lambda>r. (r, None)) [Received example_message, Timeout]) ()
      = (Pending :: (unit, unit, unit) loop_end, out, ())
    \<and> read_loop protobuf noise_ref (\<lambda>m ms. (Ok () :: (unit, unit) result, ms @ [m])) \<lparr>in_bytes = out @ [], in_end = None\<rparr> () []
      = read_loop protobuf noise_ref (\<lambda>m ms. (Ok (), ms @ [m])) \<lparr>in_bytes = [], in_end = None\<rparr> ()
          [example_message, \<lparr>inner = None\<rparr>]"
proof -
  let ?cb = "\<lambda>m ms. (Ok () :: (unit, unit) result, ms @ [m])"
  obtain out where out: "write_loop protobuf noise_ref (map (\<lambda>r. (r, None)) [Received example_message, Timeout]) ()
      = (Pending :: (unit, unit, unit) loop_end, out, ())"
    by (simp add: example_len protobuf_def noise_ref_def example_bytes MESSAGE_BUFFER_SIZE_def MAX_ENCODED_LEN_def)
  have cb: "fst (?cb m s) = Ok ()" for m s by simp
  show ?thesis
    using frames_roundtrip[where callback = ?cb and linked = "\<lambda>_ _. True" and rest = "[]" and e = None and s = "[]",
        OF protobuf.message_codec_axioms noise_session_ref TrueI cb out] out
    by auto
qed

lemma noise_writes_ref: "noise_writes noise_ref (\<lambda>_. True)"
  by (auto simp: noise_writes_def noise_ref_def)

section \<open>The length of an advertisement\<close>

lemma length_varint_3:
  assumes "16384 \<le> n" "n < 2097152"
  shows "length (varint n) = 3"
proof -
  have "\<not> n < 128" "\<not> n div 128 < 128" "n div 128 div 128 < 128" using assms by auto
  then show ?thesis
    by (simp add: varint.simps[of n] varint.simps[of "n div 128"] varint.simps[of "n div 128 div 128"])
qed

lemma length_varint_le: "n < 128 ^ Suc k \<Longrightarrow> length (varint n) \<le> Suc k"
proof (induction k arbitrary: n)
  case 0
  then show ?case by (simp add: varint.simps)
next
  case (Suc k)
  then have "n div 128 < 128 ^ Suc k" by (simp add: less_mult_imp_div_less mult.commute)
  with Suc.IH[of "n div 128"] show ?case by (subst varint.simps) simp
qed

lemma length_uint_field:
  assumes "k < 16"
  shows "length (fields_bytes (uint_field k v)) \<le> 11"
proof -
  have "length (varint (8 * k)) = 1" using assms by (simp add: varint.simps)
  moreover have "length (varint (unat v)) \<le> Suc 9"
    using unsigned_less[of v, where ?'a = nat] by (intro length_varint_le) simp
  ultimately show ?thesis
    by (auto simp: uint_field_def fields_bytes_def)
qed

lemma fields_bytes_append [simp]: "fields_bytes (fs @ gs) = fields_bytes fs @ fields_bytes gs"
  by (simp add: fields_bytes_def)

lemma length_motd_field:
  assumes "16384 \<le> length motd" "length motd < 2097152"
  shows "length (fields_bytes (bytes_field 2 motd)) = length motd + 4"
  using assms length_varint_3[OF assms] by (auto simp: bytes_field_def fields_bytes_def varint.simps[of 18])

lemma encoded_len_Game:
  assumes "16384 \<le> length (rgm_motd g)" "length (rgm_motd g) < 2097000"
  shows "encoded_len protobuf \<lparr>inner = Some (Game g)\<rparr> = length (rgm_motd g) + 8
    + length (fields_bytes (uint_field 1 (rgm_id g))) + length (fields_bytes (uint_field 3 (rgm_hops g)))"
proof -
  let ?fs = "snd (inner_fields (Game g))"
  have n: "length (fields_bytes ?fs) = length (rgm_motd g) + 4
      + length (fields_bytes (uint_field 1 (rgm_id g))) + length (fields_bytes (uint_field 3 (rgm_hops g)))"
    using length_motd_field[of "rgm_motd g"] assms by simp
  then have "length (varint (length (fields_bytes ?fs))) = 3"
    using assms length_uint_field[of 1 "rgm_id g"] length_uint_field[of 3 "rgm_hops g"]
    by (intro length_varint_3) simp_all
  with n show ?thesis by (simp add: protobuf_def message_bytes_def varint.simps[of 10])
qed

text \<open>
  An advertisement that fits exactly into a frame no longer does when it is forwarded, with a hop
  count that is not 0 any more and whatever id.
\<close>

definition long_game :: relay_game where
  "long_game = \<lparr>rgm_id = 0, rgm_motd = replicate 65511 65, rgm_hops = 0\<rparr>"

lemma long_game_len:
  "encoded_len protobuf \<lparr>inner = Some (Game long_game)\<rparr> = 65519"
  "65519 < encoded_len protobuf \<lparr>inner = Some (Game (long_game\<lparr>rgm_id := i, rgm_hops := 1\<rparr>))\<rparr>"
  "encoded_len protobuf \<lparr>inner = Some (Game (long_game\<lparr>rgm_id := i, rgm_hops := 1\<rparr>))\<rparr> \<le> 65535"
proof -
  have zero: "fields_bytes (uint_field k 0) = []" for k
    by (simp add: uint_field_def fields_bytes_def)
  have one: "length (fields_bytes (uint_field 3 1)) = 2"
    by (simp add: uint_field_def fields_bytes_def varint.simps)
  show "encoded_len protobuf \<lparr>inner = Some (Game long_game)\<rparr> = 65519"
    by (subst encoded_len_Game) (simp_all add: long_game_def zero)
  have "encoded_len protobuf \<lparr>inner = Some (Game (long_game\<lparr>rgm_id := i, rgm_hops := 1\<rparr>))\<rparr>
      = 65521 + length (fields_bytes (uint_field 1 i))"
    by (subst encoded_len_Game) (simp_all add: long_game_def one)
  with length_uint_field[of 1 i]
  show "65519 < encoded_len protobuf \<lparr>inner = Some (Game (long_game\<lparr>rgm_id := i, rgm_hops := 1\<rparr>))\<rparr>"
    "encoded_len protobuf \<lparr>inner = Some (Game (long_game\<lparr>rgm_id := i, rgm_hops := 1\<rparr>))\<rparr> \<le> 65535"
    by simp_all
qed

text \<open>A long advertisement at both sides of the limit.\<close>

theorem write_loop_message_size_witness:
  "\<exists>frame e t'. length frame = encoded_len protobuf \<lparr>inner = Some (Game long_game)\<rparr> + 18
    \<and> write_step protobuf noise_ref (Received \<lparr>inner = Some (Game long_game)\<rparr>) None ()
        = (Pending :: (unit, unit, unit) loop_end, frame, ())
    \<and> write_step protobuf noise_ref (Received \<lparr>inner = Some (Game (long_game\<lparr>rgm_id := 0, rgm_hops := 1\<rparr>))\<rparr>) None ()
        = (Ready (Err (CE_Encrypt e)) :: (unit, unit, unit) loop_end, [], t')"
proof -
  note sizes = write_loop_message_size[OF protobuf.message_codec_axioms noise_writes_ref TrueI refl,
      where ?'e = unit and w = None and t = "()"]
  show ?thesis
    using sizes[of "\<lparr>inner = Some (Game long_game)\<rparr>"] long_game_len(1) long_game_len(2,3)[of 0]
      sizes[of "\<lparr>inner = Some (Game (long_game\<lparr>rgm_id := 0, rgm_hops := 1\<rparr>))\<rparr>"]
    by (auto simp: Let_def simp del: write_step.simps)
qed

end
