(* ===== verification/Relay_Duplex.thy ===== *)
theory Relay_Duplex
  imports Relay_Link Protobuf
begin

text \<open>
  Two connected relays: each runs a peer connection that reads and writes at any time, and what one
  writes is what the other reads, later. The events are the turns of the two write loops and the frames
  that the two read loops take, in any order.
\<close>

section \<open>The link\<close>

text \<open>
  One end: its transport, the peer at the other end, the bytes on their way to it, the messages its
  write loop has taken, and the messages it has sent to its relay.
\<close>

record 't endpoint =
  ep_t :: 't
  ep_peer :: peer_id
  ep_in :: bytes
  ep_sent :: "relay_message list"
  ep_got :: "message list"

datatype link_event = LinkWrite bool recv_outcome | LinkRead bool

fun link_step ::
  "'d codec \<Rightarrow> ('t, 'n) noise_transport \<Rightarrow> link_event \<Rightarrow> (bool \<Rightarrow> 't endpoint) \<Rightarrow> (bool \<Rightarrow> 't endpoint) option"
where
  "link_step C T (LinkWrite x r) l =
     (case PeerConnection_run C T (\<lambda>_. True) (ep_peer (l x)) [Queued r None] (ep_t (l x)) (ep_got (l x)) of
        (Pending, out, t, got) \<Rightarrow>
          Some (l(x := (l x)\<lparr>ep_t := t, ep_sent := ep_sent (l x) @ [sent_message r], ep_got := got\<rparr>,
                  (\<not> x) := (l (\<not> x))\<lparr>ep_in := ep_in (l (\<not> x)) @ out\<rparr>))
      | _ \<Rightarrow> None)"
| "link_step C T (LinkRead x) l =
     (case read_frame MAX_ENCRYPTED_LEN \<lparr>in_bytes = ep_in (l x), in_end = None\<rparr> of
        Ready (Inr (data, st)) \<Rightarrow>
          (case PeerConnection_run C T (\<lambda>_. True) (ep_peer (l x)) [FrameRead (Ok data)] (ep_t (l x)) (ep_got (l x)) of
             (Pending, out, t, got) \<Rightarrow> Some (l(x := (l x)\<lparr>ep_t := t, ep_in := in_bytes st, ep_got := got\<rparr>))
           | _ \<Rightarrow> None)
      | _ \<Rightarrow> None)"

definition link_init :: "(bool \<Rightarrow> 't) \<Rightarrow> (bool \<Rightarrow> peer_id) \<Rightarrow> bool \<Rightarrow> 't endpoint" where
  "link_init t p x = \<lparr>ep_t = t x, ep_peer = p x, ep_in = [], ep_sent = [], ep_got = []\<rparr>"

section \<open>What the transports promise\<close>

text \<open>
  \<open>in_step a b q\<close>: the sending side of \<open>a\<close> is ahead of the receiving side of \<open>b\<close> by the messages \<open>q\<close>, each
  with its encryption. Writing puts a message at the end, reading takes the first, and the two
  directions of a transport do not touch each other.
\<close>

locale noise_channel =
  fixes T :: "('t, 'n) noise_transport"
    and in_step :: "'t \<Rightarrow> 't \<Rightarrow> (bytes \<times> bytes) list \<Rightarrow> bool"
  assumes write_ahead: "in_step a b q \<Longrightarrow> tr_write T a p n = (Ok c, a') \<Longrightarrow>
      length c = length p + 16 \<and> in_step a' b (q @ [(p, c)])"
    and read_next: "in_step a b ((p, c) # q) \<Longrightarrow> length p \<le> n \<Longrightarrow> \<exists>b'. tr_read T b c n = (Ok p, b') \<and> in_step a b' q"
    and write_apart: "in_step a b q \<Longrightarrow> tr_write T b p n = (r, b') \<Longrightarrow> in_step a b' q"
    and read_apart: "in_step a b q \<Longrightarrow> tr_read T a c n = (r, a') \<Longrightarrow> in_step a' b q"

interpretation noise_channel_ref: noise_channel noise_ref
  "\<lambda>_ _ q. \<forall>(p, c) \<in> set q. c = p @ replicate 16 0 \<and> length c \<le> 65535"
  by unfold_locales (auto simp: noise_ref_def split: if_splits)

text \<open>A frame under way: the message, its encoding, its encryption; both are empty for a ping.\<close>

type_synonym frame = "relay_message \<times> bytes \<times> bytes"

definition frame_ok :: "'d codec \<Rightarrow> frame \<Rightarrow> bool" where
  "frame_ok C = (\<lambda>(m, p, c).
     if c = [] then m = \<lparr>inner = None\<rparr>
     else length c = length p + 16 \<and> length c \<le> 65535 \<and> decode_msg C p = Ok m)"

definition frame_bytes :: "frame list \<Rightarrow> bytes" where
  "frame_bytes fs = concat (map (\<lambda>(m, p, c). put_u16 (of_nat (length c)) @ c) fs)"

definition encrypted :: "frame list \<Rightarrow> (bytes \<times> bytes) list" where
  "encrypted fs = map snd (filter (\<lambda>(m, p, c). c \<noteq> []) fs)"

lemma frame_lists [simp]:
  "frame_bytes [] = []" "frame_bytes (fs @ gs) = frame_bytes fs @ frame_bytes gs"
  "frame_bytes ((m, p, c) # fs) = put_u16 (of_nat (length c)) @ c @ frame_bytes fs"
  "encrypted [] = []" "encrypted (fs @ gs) = encrypted fs @ encrypted gs"
  "encrypted ((m, p, c) # fs) = (if c = [] then [] else [(p, c)]) @ encrypted fs"
  by (simp_all add: frame_bytes_def encrypted_def)

locale duplex = message_codec C + noise_channel T in_step
  for C :: "'d codec" and T :: "('t, 'n) noise_transport" and in_step
begin

text \<open>From one end to the other: what is on its way is what was sent and has not been handed on.\<close>

definition flows :: "'t endpoint \<Rightarrow> 't endpoint \<Rightarrow> frame list \<Rightarrow> bool" where
  "flows a b fs \<longleftrightarrow> in_step (ep_t a) (ep_t b) (encrypted fs) \<and> (\<forall>f \<in> set fs. frame_ok C f)
     \<and> ep_in b = frame_bytes fs \<and> map (Recv (ep_peer b)) (ep_sent a) = ep_got b @ map (Recv (ep_peer b) \<circ> fst) fs"

lemma flows_write:
  assumes "flows a b fs" "write_step C T r None (ep_t a) = (Pending :: ('n, 'd, unit) loop_end, out, t)"
  shows "\<exists>f. flows (a\<lparr>ep_t := t, ep_sent := ep_sent a @ [sent_message r]\<rparr>) (b\<lparr>ep_in := ep_in b @ out\<rparr>) (fs @ [f])"
proof (cases r)
  case (Received m)
  from assms(2)[unfolded Received] obtain encoded c where enc: "encoded_len C m \<le> 65535"
      "encode_msg C m (encoded_len C m) = Some encoded"
    and c: "tr_write T (ep_t a) encoded 65535 = (Ok c, t)" "length c \<le> 65535" "out = put_u16 (of_nat (length c)) @ c"
    by (rule write_step_frame)
  obtain bs where "encode_msg C m (encoded_len C m) = Some bs" "decode_msg C bs = Ok m"
    by (rule encode_exact)
  with enc(2) have dec: "decode_msg C encoded = Ok m" by simp
  from assms(1) have "in_step (ep_t a) (ep_t b) (encrypted fs)" by (simp add: flows_def)
  from write_ahead[OF this c(1)] dec c assms(1) show ?thesis
    by (intro exI[of _ "(m, encoded, c)"]) (auto simp: flows_def frame_ok_def Received)
next
  case Timeout
  with assms show ?thesis
    by (intro exI[of _ "(\<lparr>inner = None\<rparr>, [], [])"]) (auto simp: flows_def frame_ok_def put_u16_def)
qed (use assms in simp)

lemma flows_write_apart:
  assumes "flows b a fs" "write_step C T r w (ep_t a) = (res :: ('n, 'd, unit) loop_end, out, t)"
  shows "flows b (a\<lparr>ep_t := t\<rparr>) fs"
proof -
  have "in_step (ep_t b) t q" if "in_step (ep_t b) (ep_t a) q" for q
    using assms(2) that
    by (cases r) (auto simp: Let_def split: if_splits option.splits prod.splits sum.splits dest: write_apart)
  with assms(1) show ?thesis by (simp add: flows_def)
qed

lemma frame_taken:
  assumes "flows a b (f # fs)"
  obtains data t where
    "read_frame MAX_ENCRYPTED_LEN \<lparr>in_bytes = ep_in b, in_end = None\<rparr> = Ready (Ok (data, \<lparr>in_bytes = frame_bytes fs, in_end = None\<rparr>))"
    "PeerConnection_run C T (\<lambda>_. True) (ep_peer b) [FrameRead (Ok data)] (ep_t b) (ep_got b)
       = (Pending, [], t, ep_got b @ [Recv (ep_peer b) (fst f)])"
    "flows a (b\<lparr>ep_t := t, ep_in := frame_bytes fs, ep_got := ep_got b @ [Recv (ep_peer b) (fst f)]\<rparr>) fs"
proof -
  obtain m p c where f: "f = (m, p, c)" by (metis prod_cases3)
  from assms have a: "frame_ok C (m, p, c)" "in_step (ep_t a) (ep_t b) (encrypted ((m, p, c) # fs))" "\<forall>f \<in> set fs. frame_ok C f"
    "ep_in b = put_u16 (of_nat (length c)) @ c @ frame_bytes fs"
    "map (Recv (ep_peer b)) (ep_sent a) = (ep_got b @ [Recv (ep_peer b) m]) @ map (Recv (ep_peer b) \<circ> fst) fs"
    by (auto simp: flows_def f)
  have len: "length c \<le> 65535" using a(1) by (auto simp: frame_ok_def split: if_splits)
  have frame: "read_frame MAX_ENCRYPTED_LEN \<lparr>in_bytes = ep_in b, in_end = None\<rparr> = Ready (Ok (c, \<lparr>in_bytes = frame_bytes fs, in_end = None\<rparr>))"
    using read_frame_Ready[OF len, of MAX_ENCRYPTED_LEN "\<lparr>in_bytes = ep_in b, in_end = None\<rparr>" "frame_bytes fs"] len a(4)
    by (simp add: MAX_ENCRYPTED_LEN_def)
  obtain t where t: "in_step (ep_t a) t (encrypted fs)"
    "read_step C T (\<lambda>m. relay_send (\<lambda>_. True) (Recv (ep_peer b) m)) c (ep_t b) (ep_got b) = (Ok (), t, ep_got b @ [Recv (ep_peer b) m])"
  proof (cases "c = []")
    case True
    with a(1,2) show ?thesis
      by (intro that[of "ep_t b"]) (simp_all add: frame_ok_def read_step_def decode_empty relay_send_def)
  next
    case False
    with a(1) have "length p \<le> MAX_ENCODED_LEN" by (simp add: frame_ok_def MAX_ENCODED_LEN_def)
    with read_next[of "ep_t a" "ep_t b" p c "encrypted fs"] a(2) False obtain t where
      "tr_read T (ep_t b) c MAX_ENCODED_LEN = (Ok p, t)" "in_step (ep_t a) t (encrypted fs)" by auto
    with a(1) False show ?thesis
      by (intro that[of t]) (simp_all add: frame_ok_def read_step_def relay_send_def)
  qed
  show ?thesis
    by (rule that[OF frame, of t]) (use t a in \<open>simp_all add: f flows_def PeerConnection_run_def\<close>)
qed

lemma flows_read_apart:
  assumes "flows b a fs" "read_step C T callback data (ep_t b) s = (res, t, s')"
  shows "flows (b\<lparr>ep_t := t, ep_in := i, ep_got := g\<rparr>) a fs"
proof -
  have "in_step t (ep_t a) q" if "in_step (ep_t b) (ep_t a) q" for q
    using assms(2) that
    by (auto simp: read_step_def Let_def split: if_splits prod.splits sum.splits dest: read_apart)
  with assms(1) show ?thesis by (simp add: flows_def)
qed

definition link_ok :: "(bool \<Rightarrow> 't endpoint) \<Rightarrow> bool" where
  "link_ok l \<longleftrightarrow> (\<forall>x. \<exists>fs. flows (l x) (l (\<not> x)) fs)"

lemma link_okE:
  assumes "link_ok l"
  obtains fs gs where "flows (l x) (l (\<not> x)) fs" "flows (l (\<not> x)) (l x) gs"
proof -
  obtain fs where "flows (l x) (l (\<not> x)) fs" using assms by (auto simp: link_ok_def)
  moreover obtain gs where "flows (l (\<not> x)) (l (\<not> (\<not> x))) gs" using assms unfolding link_ok_def by blast
  ultimately show ?thesis by (intro that) simp_all
qed

lemma link_okI:
  assumes "flows (l x) (l (\<not> x)) fs" "flows (l (\<not> x)) (l x) gs"
  shows "link_ok l"
  unfolding link_ok_def
proof
  fix y
  have "y = x \<or> y = (\<not> x)" by auto
  then show "\<exists>fs. flows (l y) (l (\<not> y)) fs" using assms by (elim disjE) auto
qed

lemma link_ok_write:
  assumes "link_ok l" "link_step C T (LinkWrite x r) l = Some l'"
  shows "link_ok l'"
proof -
  obtain out t where w: "write_step C T r None (ep_t (l x)) = (Pending :: ('n, 'd, unit) loop_end, out, t)"
    and l': "l' = l(x := (l x)\<lparr>ep_t := t, ep_sent := ep_sent (l x) @ [sent_message r]\<rparr>, (\<not> x) := (l (\<not> x))\<lparr>ep_in := ep_in (l (\<not> x)) @ out\<rparr>)"
    using assms(2) by (auto simp: PeerConnection_run_def split: prod.splits poll.splits simp del: write_step.simps)
  obtain fs gs where fs: "flows (l x) (l (\<not> x)) fs" and gs: "flows (l (\<not> x)) (l x) gs"
    using assms(1) by (rule link_okE)
  have "\<exists>f. flows (l' x) (l' (\<not> x)) (fs @ [f])"
    using flows_write[OF fs w] by (simp add: l')
  moreover have "flows (l' (\<not> x)) (l' x) gs"
    using flows_write_apart[OF gs w] by (simp add: l' flows_def)
  ultimately show ?thesis using link_okI by blast
qed

lemma link_ok_read:
  assumes "link_ok l" "link_step C T (LinkRead x) l = Some l'"
  shows "link_ok l'"
proof -
  obtain data st t got where f: "read_frame MAX_ENCRYPTED_LEN \<lparr>in_bytes = ep_in (l x), in_end = None\<rparr> = Ready (Ok (data, st))"
    and run: "PeerConnection_run C T (\<lambda>_. True) (ep_peer (l x)) [FrameRead (Ok data)] (ep_t (l x)) (ep_got (l x)) = (Pending, [], t, got)"
    and l': "l' = l(x := (l x)\<lparr>ep_t := t, ep_in := in_bytes st, ep_got := got\<rparr>)"
    using assms(2) by (auto simp: PeerConnection_run_def split: prod.splits poll.splits sum.splits)
  obtain fs gs where fs: "flows (l x) (l (\<not> x)) fs" and gs: "flows (l (\<not> x)) (l x) gs"
    using assms(1) by (rule link_okE)
  obtain res where "read_step C T (\<lambda>m. relay_send (\<lambda>_. True) (Recv (ep_peer (l x)) m)) data (ep_t (l x)) (ep_got (l x)) = (res, t, got)"
    using run by (auto simp: PeerConnection_run_def split: prod.splits sum.splits)
  from flows_read_apart[OF fs this] have "flows (l' x) (l' (\<not> x)) fs" by (simp add: l')
  moreover have "\<exists>hs. flows (l' (\<not> x)) (l' x) hs"
  proof (cases gs)
    case Nil
    with gs f have False by (simp add: flows_def read_frame_def read_exact_def)
    then show ?thesis ..
  next
    case (Cons g hs)
    from gs[unfolded Cons] show ?thesis
    proof (rule frame_taken)
      fix data' t'
      assume "read_frame MAX_ENCRYPTED_LEN \<lparr>in_bytes = ep_in (l x), in_end = None\<rparr> = Ready (Ok (data', \<lparr>in_bytes = frame_bytes hs, in_end = None\<rparr>))"
        "PeerConnection_run C T (\<lambda>_. True) (ep_peer (l x)) [FrameRead (Ok data')] (ep_t (l x)) (ep_got (l x))
          = (Pending, [], t', ep_got (l x) @ [Recv (ep_peer (l x)) (fst g)])"
        "flows (l (\<not> x)) ((l x)\<lparr>ep_t := t', ep_in := frame_bytes hs, ep_got := ep_got (l x) @ [Recv (ep_peer (l x)) (fst g)]\<rparr>) hs"
      with f run show ?thesis by (intro exI[of _ hs]) (auto simp: l')
    qed
  qed
  ultimately show ?thesis using link_okI by blast
qed

lemma link_step_ok: "link_ok l \<Longrightarrow> pred_option link_ok (link_step C T ev l)"
  by (cases ev; cases "link_step C T ev l") (auto intro: link_ok_write link_ok_read simp del: link_step.simps)

lemma link_read_progress:
  assumes "flows (l (\<not> x)) (l x) (f # fs)"
  shows "\<exists>l'. link_step C T (LinkRead x) l = Some l' \<and> ep_got (l' x) = ep_got (l x) @ [Recv (ep_peer (l x)) (fst f)]"
  by (rule frame_taken[OF assms]) simp

lemma link_init_ok: "in_step (t True) (t False) [] \<Longrightarrow> in_step (t False) (t True) [] \<Longrightarrow> link_ok (link_init t p)"
  unfolding link_ok_def
  by (intro allI exI[of _ "[]"], rename_tac x, case_tac x) (simp_all add: flows_def link_init_def)

end

sublocale duplex < link: event_machine "link_step C T" "\<lambda>_. True" link_ok
  by unfold_locales (rule link_step_ok)

context duplex
begin

lemmas link_exec_ok = link.exec_inv

end

text \<open>
  C10: a link loses nothing, invents nothing and keeps the order, in both directions at once. However the
  two write loops and the two read loops take turns, what a relay was handed by its peer connection is
  a beginning of what the other relay queued, with an empty message for each ping; as long as something
  is missing, the next frame can be read and hands on the next message; when nothing is missing, no
  byte is on its way.
\<close>

theorem link_delivers:
  fixes T :: "('t, 'n) noise_transport" and C :: "'d codec"
  assumes "message_codec C" "noise_channel T in_step" "in_step (t True) (t False) []" "in_step (t False) (t True) []"
    and "exec_events (link_step C T) es (link_init t p) = Some l"
  shows "\<exists>missing. map (Recv (ep_peer (l x))) (ep_sent (l (\<not> x))) = ep_got (l x) @ missing
    \<and> (missing = [] \<longrightarrow> ep_in (l x) = [])
    \<and> (missing \<noteq> [] \<longrightarrow> (\<exists>l'. link_step C T (LinkRead x) l = Some l' \<and> ep_got (l' x) = ep_got (l x) @ [hd missing]))"
proof -
  from assms(1,2) have d: "duplex C T in_step" by (rule duplex.intro)
  have "duplex.link_ok C in_step l"
    by (rule duplex.link_exec_ok[OF d duplex.link_init_ok[OF d assms(3,4)] _ assms(5)]) simp
  then obtain fs gs where "duplex.flows C in_step (l (\<not> x)) (l (\<not> (\<not> x))) fs" by (rule duplex.link_okE[OF d])
  then have fs: "duplex.flows C in_step (l (\<not> x)) (l x) fs" by simp
  show ?thesis
  proof (cases fs)
    case Nil
    with fs show ?thesis by (intro exI[of _ "[]"]) (simp add: duplex.flows_def[OF d])
  next
    case (Cons f fs')
    with duplex.link_read_progress[OF d fs[unfolded Cons]] fs show ?thesis
      by (intro exI[of _ "map (Recv (ep_peer (l x)) \<circ> fst) fs"]) (simp add: duplex.flows_def[OF d])
  qed
qed

theorem link_delivers_witness:
  "\<exists>l l'. exec_events (link_step protobuf noise_ref) [LinkWrite True (Received example_message), LinkWrite False Timeout]
        (link_init (\<lambda>_. ()) (\<lambda>x. PeerId (RelayStaticKey [if x then 1 else 2]))) = Some l
    \<and> link_step protobuf noise_ref (LinkRead False) l = Some l'
    \<and> ep_got (l' False) = [Recv (PeerId (RelayStaticKey [2])) example_message]"
proof -
  let ?init = "link_init (\<lambda>_. ()) (\<lambda>x. PeerId (RelayStaticKey [if x then 1 else 2]))"
  let ?es = "[LinkWrite True (Received example_message), LinkWrite False Timeout]"
  have written: "write_step protobuf noise_ref (Received example_message) None () =
      (Pending :: (unit, unit, unit) loop_end, [0, 25] @ message_bytes example_message @ replicate 16 0, ())"
    by (simp add: example_len protobuf_def noise_ref_def example_bytes MESSAGE_BUFFER_SIZE_def MAX_ENCODED_LEN_def put_u16_def)
  obtain l where l: "exec_events (link_step protobuf noise_ref) ?es ?init = Some l"
    "ep_sent (l True) = [example_message]" "ep_peer (l False) = PeerId (RelayStaticKey [2])" "ep_got (l False) = []"
    using written by (simp add: link_init_def PeerConnection_run_def del: write_step.simps(1))
  have "\<exists>missing. map (Recv (ep_peer (l False))) (ep_sent (l (\<not> False))) = ep_got (l False) @ missing
    \<and> (missing = [] \<longrightarrow> ep_in (l False) = [])
    \<and> (missing \<noteq> [] \<longrightarrow> (\<exists>l'. link_step protobuf noise_ref (LinkRead False) l = Some l' \<and> ep_got (l' False) = ep_got (l False) @ [hd missing]))"
    by (rule link_delivers[OF protobuf.message_codec_axioms noise_channel_ref.noise_channel_axioms _ _ l(1)]) simp_all
  with l show ?thesis by auto
qed

end
