(* ===== verification/Relay_Listener.thy ===== *)
theory Relay_Listener
  imports Relay_Link
begin

text \<open>
  \<open>relay/src/relay/listener.rs\<close> and the loop of \<open>RelayHandle::listen\<close> around it: connections of other
  relays are accepted and handed on; a connection that can not be set up is skipped, and after an error
  of the listening socket listening starts again.
\<close>

section \<open>The listener\<close>

record relay_listener =
  rl_listener :: socket
  rl_keypair :: relay_keypair

datatype 'e relay_listener_error = RL_Io io_error | RL_Returned 'e

definition RelayListener_bind :: "os \<Rightarrow> socket_addr \<Rightarrow> relay_keypair \<Rightarrow> (relay_listener, io_error) result" where
  "RelayListener_bind os addr keypair =
     and_then (sys_on os (TcpListen addr) []) (\<lambda>listener.
     Ok \<lparr>rl_listener = listener, rl_keypair = keypair\<rparr>)"

definition RelayListener_local_addr :: "os \<Rightarrow> relay_listener \<Rightarrow> (socket_addr, io_error) result" where
  "RelayListener_local_addr os listener = local_addr_of os (rl_listener listener)"

text \<open>
  A stream that was accepted: what the system answers to calls on it, its peer's address, and the handle of
  the queue that a connection on it gets.
\<close>

record accepted_stream =
  as_os :: os
  as_peer_addr :: socket_addr
  as_tx :: relay_connection_handle

definition handle_connection ::
  "('p, 'h, 'n) noise_builder \<Rightarrow> accepted_stream \<Rightarrow> relay_keypair \<Rightarrow> ('h relay_connection, 'n relay_connect_error) result poll"
where
  "handle_connection B stream keypair =
     RelayConnection_accept B (as_os stream) (as_peer_addr stream) [] keypair (as_tx stream)"

text \<open>
  \<open>RelayListener::run\<close> over the outcomes of \<open>accept\<close>. It returns only with an error, \<open>Ready\<close>; the outcomes
  it has not taken are returned with it.
\<close>

fun RelayListener_run ::
  "('p, 'h, 'n) noise_builder \<Rightarrow> relay_keypair \<Rightarrow> ('h relay_connection \<Rightarrow> 's \<Rightarrow> (unit, 'e) result \<times> 's) \<Rightarrow>
    (accepted_stream, io_error) result list \<Rightarrow> 's \<Rightarrow>
    'e relay_listener_error poll \<times> (accepted_stream, io_error) result list \<times> 's"
where
  "RelayListener_run B keypair callback [] s = (Pending, [], s)"
| "RelayListener_run B keypair callback (Inl e # rs) s = (Ready (RL_Io e), rs, s)"
| "RelayListener_run B keypair callback (Inr stream # rs) s =
     (case handle_connection B stream keypair of
        Pending \<Rightarrow> (Pending, rs, s)
      | Panicked \<Rightarrow> (Panicked, rs, s)
      | Ready (Inl _) \<Rightarrow> RelayListener_run B keypair callback rs s
      | Ready (Inr connection) \<Rightarrow>
          (case callback connection s of
             (Inl e, s) \<Rightarrow> (Ready (RL_Returned e), rs, s)
           | (Inr _, s) \<Rightarrow> RelayListener_run B keypair callback rs s))"

lemma RelayListener_run_rest:
  "RelayListener_run B keypair callback rs s = (Ready e, rest, s') \<Longrightarrow> length rest < length rs"
  by (induction B keypair callback rs s arbitrary: s' rule: RelayListener_run.induct)
    (fastforce split: poll.splits sum.splits prod.splits)+

section \<open>Listening for ever\<close>

text \<open>
  The loop \<open>listen_loop\<close> of \<open>RelayHandle::listen\<close>: for every connection a thread is started, which never
  fails, and when the listener returns with an error it is run again after a second.
\<close>

definition spawn_accept :: "'h relay_connection \<Rightarrow> 'h relay_connection list \<Rightarrow> (unit, unit) result \<times> 'h relay_connection list" where
  "spawn_accept connection spawned = (Ok (), spawned @ [connection])"

function listen_loop ::
  "('p, 'h, 'n) noise_builder \<Rightarrow> relay_keypair \<Rightarrow> (accepted_stream, io_error) result list \<Rightarrow> 'h relay_connection list \<Rightarrow>
    unit poll \<times> 'h relay_connection list"
where
  "listen_loop B keypair rs spawned =
     (case RelayListener_run B keypair spawn_accept rs spawned of
        (Pending, _, spawned) \<Rightarrow> (Pending, spawned)
      | (Panicked, _, spawned) \<Rightarrow> (Panicked, spawned)
      | (Ready _, rest, spawned) \<Rightarrow> listen_loop B keypair rest spawned)"
  by pat_completeness auto
termination
  by (relation "measure (\<lambda>(B, keypair, rs, spawned). length rs)") (auto dest: RelayListener_run_rest[OF sym])

declare listen_loop.simps [simp del]

text \<open>The connections that can be set up, among the outcomes of \<open>accept\<close>.\<close>

definition usable :: "('p, 'h, 'n) noise_builder \<Rightarrow> relay_keypair \<Rightarrow> (accepted_stream, io_error) result \<Rightarrow> 'h relay_connection option" where
  "usable B keypair r =
     (case r of
        Inr stream \<Rightarrow> (case handle_connection B stream keypair of Ready (Inr connection) \<Rightarrow> Some connection | _ \<Rightarrow> None)
      | Inl _ \<Rightarrow> None)"

lemma handle_connection_Ready:
  assumes "parse_params B PATTERN = Ok params"
  shows "\<exists>r. handle_connection B stream keypair = Ready r"
  using assms by (simp add: handle_connection_def RelayConnection_accept_def)

lemma run_spawn:
  assumes "parse_params B PATTERN = Ok params" "RelayListener_run B keypair spawn_accept rs spawned = (r, rest, spawned')"
  shows "\<exists>taken. rs = taken @ rest \<and> spawned' = spawned @ List.map_filter (usable B keypair) taken
    \<and> (r = Pending \<and> rest = [] \<or> (\<exists>e. r = Ready e))"
  using assms(2)
proof (induction rs arbitrary: spawned)
  case Nil
  then show ?case by (simp add: List.map_filter_simps)
next
  case (Cons a rs)
  show ?case
  proof (cases a)
    case (Inl e)
    with Cons.prems show ?thesis
      by (intro exI[of _ "[a]"]) (auto simp: List.map_filter_simps usable_def)
  next
    case (Inr stream)
    obtain hr where hr: "handle_connection B stream keypair = Ready hr"
      using handle_connection_Ready[OF assms(1)] by blast
    have "RelayListener_run B keypair spawn_accept rs (spawned @ List.map_filter (usable B keypair) [a]) = (r, rest, spawned')"
      using Cons.prems Inr hr by (cases hr) (simp_all add: usable_def List.map_filter_simps spawn_accept_def[abs_def])
    from Cons.IH[OF this] obtain taken where "rs = taken @ rest"
      "spawned' = (spawned @ List.map_filter (usable B keypair) [a]) @ List.map_filter (usable B keypair) taken"
      "r = Pending \<and> rest = [] \<or> (\<exists>e. r = Ready e)" by blast
    then show ?thesis
      by (intro exI[of _ "a # taken"]) (auto simp: List.map_filter_simps split: option.split)
  qed
qed

text \<open>
  C25: listening outlasts every error. Whatever \<open>accept\<close> gives, errors of the socket and streams that
  can not be set up included, the loop goes on, and a thread is started for exactly the connections
  that could be set up, in the order in which they came.
\<close>

theorem listening_outlasts_errors:
  assumes "parse_params B PATTERN = Ok params"
  shows "listen_loop B keypair rs spawned = (Pending, spawned @ List.map_filter (usable B keypair) rs)"
proof (induction "length rs" arbitrary: rs spawned rule: less_induct)
  case less
  obtain r rest spawned' where run: "RelayListener_run B keypair spawn_accept rs spawned = (r, rest, spawned')"
    by (metis prod_cases3)
  from run_spawn[OF assms run] obtain taken where taken: "rs = taken @ rest"
    "spawned' = spawned @ List.map_filter (usable B keypair) taken" "r = Pending \<and> rest = [] \<or> (\<exists>e. r = Ready e)" by blast
  from taken(3) show ?case
  proof (elim disjE exE)
    fix e
    assume e: "r = Ready e"
    with run have "length rest < length rs" by (auto dest: RelayListener_run_rest)
    from less[OF this] run e taken show ?thesis
      by (subst listen_loop.simps) (simp add: List.map_filter_def)
  qed (use run taken in \<open>simp add: listen_loop.simps List.map_filter_def\<close>)
qed

theorem listening_outlasts_errors_witness:
  "\<exists>c. listen_loop builder_ref (RelayKeypair (keypair_ref 2))
      [Err TimedOut, Ok \<lparr>as_os = os_ref\<lparr>sys := \<lambda>_. Err (OtherIo 1)\<rparr>, as_peer_addr = V4 3 1, as_tx = RelayConnectionHandle 1\<rparr>,
       Ok \<lparr>as_os = os_ref, as_peer_addr = V4 4 1, as_tx = RelayConnectionHandle 2\<rparr>, Err InvalidInput] [] = (Pending, [c])
    \<and> conn_tx c = RelayConnectionHandle 2"
  by (subst listening_outlasts_errors[of builder_ref "()"])
    (simp_all add: builder_ref_def List.map_filter_simps usable_def handle_connection_def RelayConnection_accept_def
      RelayConnection_new_def sys_on_def os_ref_def)

end
