(* ===== verification/Main_UI.thy ===== *)
theory Main_UI
  imports Relay_Types
begin

text \<open>
  \<open>ui_loop\<close> of \<open>relay/src/main.rs\<close>: the loop that reads what the user enters and the questions of the
  thread that accepts relays. At most one question waits for the user and at most one attempt to
  connect is under way. Connection attempts and the channels for answers are numbered.
\<close>

section \<open>The loop\<close>

definition DEFAULT_PORT :: u16 where
  "DEFAULT_PORT = 25566"

datatype ui_message =
    Input string
  | AcceptConnection socket_addr relay_static_key nat

record ui_state =
  connect_handle :: "nat option"
  waiting_peer :: "(socket_addr \<times> relay_static_key \<times> nat) option"
  connects :: nat

definition ui_init :: ui_state where
  "ui_init = \<lparr>connect_handle = None, waiting_peer = None, connects = 0\<rparr>"

datatype connect_target = Address string | HostAndPort string u16

text \<open>
  What the loop does: it prints a prompt, answers a question with yes, drops the channel of an answer
  (which its other end takes for a no), cancels an attempt to connect, or starts one.
\<close>

datatype ui_prompt = AskAccept socket_addr relay_static_key | AskStop | AskHost

datatype ui_effect =
    Print ui_prompt
  | ReplyTrue nat
  | DropReply nat
  | CancelConnect nat
  | StartConnect nat connect_target

definition ui_prompt :: "ui_state \<Rightarrow> ui_prompt" where
  "ui_prompt s =
     (case waiting_peer s of
        Some (peer_addr, peer_static, _) \<Rightarrow> AskAccept peer_addr peer_static
      | None \<Rightarrow> (case connect_handle s of Some _ \<Rightarrow> AskStop | None \<Rightarrow> AskHost))"

text \<open>\<open>make_ascii_lowercase\<close>.\<close>

definition ascii_lower :: "char \<Rightarrow> char" where
  "ascii_lower c = (let n = of_char c :: nat in if 65 \<le> n \<and> n \<le> 90 then char_of (n + 32) else c)"

definition drop_waiting :: "ui_state \<Rightarrow> ui_effect list" where
  "drop_waiting s = (case waiting_peer s of None \<Rightarrow> [] | Some (_, _, reply) \<Rightarrow> [DropReply reply])"

fun ui_step :: "relay_static_key \<Rightarrow> ui_message \<Rightarrow> ui_state \<Rightarrow> ui_state \<times> ui_effect list" where
  "ui_step public (Input addr_str) s =
     (case waiting_peer s of
        Some (peer_addr, peer_static, reply) \<Rightarrow>
          (let answer = map ascii_lower addr_str in
           if answer \<in> {''y'', ''yes'', ''''} then (s\<lparr>waiting_peer := None\<rparr>, [ReplyTrue reply])
           else if answer \<in> {''n'', ''no''} then (s\<lparr>waiting_peer := None\<rparr>, [DropReply reply])
           else (s\<lparr>waiting_peer := Some (peer_addr, peer_static, reply)\<rparr>, []))
      | None \<Rightarrow>
          (let cancelled = (case connect_handle s of None \<Rightarrow> [] | Some h \<Rightarrow> [CancelConnect h]);
               s = s\<lparr>connect_handle := None\<rparr>
           in if addr_str = '''' then (s, cancelled)
              else (s\<lparr>connect_handle := Some (connects s), connects := Suc (connects s)\<rparr>,
                    cancelled @ [StartConnect (connects s)
                      (if CHR '':'' \<in> set addr_str then Address addr_str else HostAndPort addr_str DEFAULT_PORT)])))"
| "ui_step public (AcceptConnection peer_addr peer_static reply) s =
     (if peer_static = public then (s, [DropReply reply])
      else (s\<lparr>waiting_peer := Some (peer_addr, peer_static, reply)\<rparr>, drop_waiting s))"

definition ui_loop :: "relay_static_key \<Rightarrow> ui_message list \<Rightarrow> ui_state \<Rightarrow> (ui_state \<times> ui_effect list) option" where
  "ui_loop public = run_loop (\<lambda>m s. let (s', eff) = ui_step public m s in Some (s', Print (ui_prompt s) # eff))"

section \<open>Questions and answers\<close>

text \<open>What counts as a yes.\<close>

definition says_yes :: "string \<Rightarrow> bool" where
  "says_yes t \<longleftrightarrow> map ascii_lower t \<in> {''y'', ''yes'', ''''}"

lemma ui_step_reply:
  assumes "ReplyTrue r \<in> set (snd (ui_step public m s))"
  shows "\<exists>a k t. waiting_peer s = Some (a, k, r) \<and> m = Input t \<and> says_yes t"
  using assms by (cases m) (auto simp: says_yes_def Let_def drop_waiting_def split: option.splits if_splits)

lemma ui_step_waiting:
  assumes "waiting_peer (fst (ui_step public m s)) = Some (a, k, r)"
  shows "waiting_peer s = Some (a, k, r) \<or> m = AcceptConnection a k r \<and> k \<noteq> public"
  using assms by (cases m) (auto simp: Let_def split: option.splits if_splits)

lemma ui_loop_Cons:
  "ui_loop public (m # ms) s = Some (s', eff) \<Longrightarrow>
     \<exists>eff'. ui_loop public ms (fst (ui_step public m s)) = Some (s', eff')
       \<and> eff = Print (ui_prompt s) # snd (ui_step public m s) @ eff'"
  by (auto simp: ui_loop_def split_beta Let_def split: option.splits)

lemma ui_loop_reply:
  assumes "ui_loop public ms s = Some (s', eff)" "ReplyTrue r \<in> set eff"
  shows "\<exists>ms1 t ms2 a k. ms = ms1 @ Input t # ms2 \<and> says_yes t
    \<and> (waiting_peer s = Some (a, k, r) \<or> AcceptConnection a k r \<in> set ms1 \<and> k \<noteq> public)"
  using assms
proof (induction ms arbitrary: s eff)
  case Nil
  then show ?case by (simp add: ui_loop_def)
next
  case (Cons m ms)
  obtain eff' where eff': "ui_loop public ms (fst (ui_step public m s)) = Some (s', eff')"
    "eff = Print (ui_prompt s) # snd (ui_step public m s) @ eff'"
    using ui_loop_Cons[OF Cons.prems(1)] by blast
  show ?case
  proof (cases "ReplyTrue r \<in> set (snd (ui_step public m s))")
    case True
    then obtain a k t where "waiting_peer s = Some (a, k, r)" "m = Input t" "says_yes t"
      using ui_step_reply by blast
    then show ?thesis by (intro exI[of _ "[]"] exI[of _ t] exI[of _ ms] exI[of _ a] exI[of _ k]) simp
  next
    case False
    with eff' Cons.prems(2) have "ReplyTrue r \<in> set eff'" by auto
    from Cons.IH[OF eff'(1) this] obtain ms1 t ms2 a k where
      ms: "ms = ms1 @ Input t # ms2" "says_yes t"
      and "waiting_peer (fst (ui_step public m s)) = Some (a, k, r) \<or> AcceptConnection a k r \<in> set ms1 \<and> k \<noteq> public"
      by blast
    then have "waiting_peer s = Some (a, k, r) \<or> AcceptConnection a k r \<in> set (m # ms1) \<and> k \<noteq> public"
      using ui_step_waiting[of public m s a k r] by auto
    with ms show ?thesis
      by (intro exI[of _ "m # ms1"] exI[of _ t] exI[of _ ms2] exI[of _ a] exI[of _ k]) auto
  qed
qed

text \<open>
  A relay is accepted only on the user's word, and never this relay itself: a yes goes only to a
  question that was asked before, for a key other than the own one, when the user entered \<open>y\<close>,
  \<open>yes\<close> in any case, or nothing.
\<close>

lemma ui_accepts_on_request:
  assumes "ui_loop public ms ui_init = Some (s, eff)" "ReplyTrue r \<in> set eff"
  shows "\<exists>ms1 t ms2 a k. ms = ms1 @ Input t # ms2 \<and> says_yes t \<and> AcceptConnection a k r \<in> set ms1 \<and> k \<noteq> public"
  using ui_loop_reply[OF assms] by (simp add: ui_init_def)

section \<open>Attempts to connect\<close>

text \<open>The attempts started and not cancelled.\<close>

fun active :: "ui_effect list \<Rightarrow> nat set \<Rightarrow> nat set" where
  "active [] H = H"
| "active (StartConnect h _ # es) H = active es (insert h H)"
| "active (CancelConnect h # es) H = active es (H - {h})"
| "active (_ # es) H = active es H"

lemma active_append: "active (es @ es') H = active es' (active es H)"
  by (induction es H rule: active.induct) simp_all

lemma ui_step_active:
  "active (snd (ui_step public m s)) (set_option (connect_handle s)) = set_option (connect_handle (fst (ui_step public m s)))"
  by (cases m) (auto simp: Let_def drop_waiting_def split: option.split)

text \<open>
  There is never more than one attempt to connect: after any inputs, of the attempts that were
  started all but the one the loop holds, if any, have been cancelled.
\<close>

lemma ui_one_connect:
  assumes "ui_loop public ms ui_init = Some (s, eff)"
  shows "active eff {} = set_option (connect_handle s)"
proof -
  have "ui_loop public ms s0 = Some (s, eff) \<Longrightarrow>
      active eff (set_option (connect_handle s0)) = set_option (connect_handle s)" for s0
  proof (induction ms arbitrary: s0 eff)
    case Nil
    then show ?case by (simp add: ui_loop_def)
  next
    case (Cons m ms)
    obtain eff' where "ui_loop public ms (fst (ui_step public m s0)) = Some (s, eff')"
      "eff = Print (ui_prompt s0) # snd (ui_step public m s0) @ eff'"
      using ui_loop_Cons[OF Cons.prems] by blast
    with Cons.IH show ?case by (simp add: active_append ui_step_active)
  qed
  from this[OF assms] show ?thesis by (simp add: ui_init_def)
qed

end
