(* ===== verification/Main_Start.thy ===== *)
theory Main_Start
  imports Relay_Listener Main_UI
begin

text \<open>
  The rest of \<open>relay/src/main.rs\<close>: the start of the program, the thread that reads standard input, and
  the thread that listens for advertisements and starts again after every error.
\<close>

section \<open>Standard input\<close>

text \<open>
  \<open>str::trim\<close> takes white space off both ends. A string is the list of its UTF-8 bytes, and these are
  the encodings of the characters that Unicode counts as white space.
\<close>

definition white_space :: "string list" where
  "white_space = map (map char_of)
     ([[9], [10], [11], [12], [13], [32], [0xC2, 0x85], [0xC2, 0xA0], [0xE1, 0x9A, 0x80]]
      @ map (\<lambda>b. [0xE2, 0x80, b]) ([0x80..<0x8B] @ [0xA8, 0xA9, 0xAF])
      @ [[0xE2, 0x81, 0x9F], [0xE3, 0x80, 0x80 :: nat]])"

lemma white_space_code [code]:
  "white_space =
     [[CHR 0x09], [CHR 0x0A], [CHR 0x0B], [CHR 0x0C],
      [CHR 0x0D], [CHR 0x20], [CHR 0xC2, CHR 0x85], [CHR 0xC2, CHR 0xA0],
      [CHR 0xE1, CHR 0x9A, CHR 0x80], [CHR 0xE2, CHR 0x80, CHR 0x80], [CHR 0xE2, CHR 0x80, CHR 0x81], [CHR 0xE2, CHR 0x80, CHR 0x82],
      [CHR 0xE2, CHR 0x80, CHR 0x83], [CHR 0xE2, CHR 0x80, CHR 0x84], [CHR 0xE2, CHR 0x80, CHR 0x85], [CHR 0xE2, CHR 0x80, CHR 0x86],
      [CHR 0xE2, CHR 0x80, CHR 0x87], [CHR 0xE2, CHR 0x80, CHR 0x88], [CHR 0xE2, CHR 0x80, CHR 0x89], [CHR 0xE2, CHR 0x80, CHR 0x8A],
      [CHR 0xE2, CHR 0x80, CHR 0xA8], [CHR 0xE2, CHR 0x80, CHR 0xA9], [CHR 0xE2, CHR 0x80, CHR 0xAF], [CHR 0xE2, CHR 0x81, CHR 0x9F],
      [CHR 0xE3, CHR 0x80, CHR 0x80]]"
  by code_simp

function strip :: "'a list list \<Rightarrow> 'a list \<Rightarrow> 'a list" where
  "strip ws s =
     (case List.find (\<lambda>w. w \<noteq> [] \<and> prefix w s) ws of
        None \<Rightarrow> s
      | Some w \<Rightarrow> strip ws (drop (length w) s))"
  by pat_completeness auto
termination
proof (relation "measure (\<lambda>(ws, s). length s)", simp)
  fix ws and s w :: "'a list"
  assume "List.find (\<lambda>w. w \<noteq> [] \<and> prefix w s) ws = Some w"
  then have "w \<noteq> []" "prefix w s" by (auto simp: find_Some_iff)
  then show "((ws, drop (length w) s), ws, s) \<in> measure (\<lambda>(ws, s). length s)"
    by (auto simp: prefix_def)
qed

declare strip.simps [simp del]

definition trim :: "string \<Rightarrow> string" where
  "trim s = rev (strip (map rev white_space) (rev (strip white_space s)))"

text \<open>
  \<open>stdin_loop\<close> over the outcomes of \<open>read_line\<close>, each with whether the user interface still takes
  messages. A line without any bytes is the end of the input. The result is what was sent, and whether
  the thread has ended.
\<close>

fun stdin_loop :: "((string, io_error) result \<times> bool) list \<Rightarrow> ui_message list \<times> bool" where
  "stdin_loop [] = ([], False)"
| "stdin_loop ((Inl e, ui_open) # rs) = ([], True)"
| "stdin_loop ((Inr line, ui_open) # rs) =
     (if line = '''' then ([], True)
      else if \<not> ui_open then ([], True)
      else (let (sent, ended) = stdin_loop rs in (Input (trim line) # sent, ended)))"

section \<open>Advertisements\<close>

text \<open>
  The thread that \<open>main\<close> starts on the discovery listener, over the outcomes of \<open>recv_from\<close>: each packet
  is handed to the relay by \<open>RelayHandle::add_local_game\<close>, and when the listener returns, with an error,
  it is run again after a second. The result is what the relay was sent.
\<close>

definition RelayHandle_add_local_game ::
  "(message list \<Rightarrow> bool) \<Rightarrow> socket_addr \<Rightarrow> u16 \<Rightarrow> bytes \<Rightarrow> message list \<Rightarrow> (unit, unit) result \<times> message list"
where
  "RelayHandle_add_local_game relay_open from port motd = relay_send relay_open (AddLocalGame from port motd)"

lemma DiscoveryListener_run_rest:
  "DiscoveryListener_run N callback rs s = (Some e, rest, s') \<Longrightarrow> length rest < length rs"
  by (induction N callback rs s rule: DiscoveryListener_run.induct)
    (fastforce split: sum.splits prod.splits)+

function discovery_loop ::
  "'n nom \<Rightarrow> (message list \<Rightarrow> bool) \<Rightarrow> (bytes \<times> socket_addr, io_error) result list \<Rightarrow> message list \<Rightarrow> message list"
where
  "discovery_loop N relay_open rs sent =
     (case DiscoveryListener_run N
         (\<lambda>from packet. RelayHandle_add_local_game relay_open from (dp_port packet) (dp_motd packet)) rs sent of
        (None, _, sent) \<Rightarrow> sent
      | (Some _, rest, sent) \<Rightarrow> discovery_loop N relay_open rest sent)"
  by pat_completeness auto
termination
  by (relation "measure (\<lambda>(N, relay_open, rs, sent). length rs)") (auto dest: DiscoveryListener_run_rest[OF sym])

declare discovery_loop.simps [simp del]

section \<open>The start of the program\<close>

datatype main_error =
    ErrDiscovery io_error
  | ErrRelay io_error
  | ErrListen io_error
  | ErrLocalAddr io_error

text \<open>What \<open>main\<close> does: it starts threads, asks for connections, and runs the relay.\<close>

datatype main_effect =
    StartListenThread relay_listener
  | StartStdinThread
  | StartUiThread relay_keypair
  | ConnectTo string relay_keypair
  | StartDiscoveryThread discovery_listener
  | RunRelay relay

text \<open>
  \<open>main\<close>, given whether the log shows informational messages, what the system answers for the sockets of the
  discovery listener, the sender of advertisements and the listener for relays, and the arguments of the
  command line: what it has done, and how it has returned. The address of the listener for relays is an
  argument of a log message and asked for only when the message is shown. \<open>relay.run()\<close> does not
  return, as the relay holds a sender of its own queue; \<open>main\<close> is pending then.
\<close>

definition main ::
  "bool \<Rightarrow> bool \<Rightarrow> os \<Rightarrow> os \<Rightarrow> os \<Rightarrow> ('p, 'h, 'n) noise_builder \<Rightarrow> string list \<Rightarrow>
    main_effect list \<times> (unit, main_error) result poll"
where
  "main info apple os_d os_s os_l B args =
     (case DiscoveryListener_new apple os_d of
        Inl e \<Rightarrow> ([], Ready (Err (ErrDiscovery e)))
      | Inr discovery_listener \<Rightarrow>
     (case Relay_open os_s of
        Inl e \<Rightarrow> ([], Ready (Err (ErrRelay e)))
      | Inr relay \<Rightarrow>
     (case RelayKeypair_generate B of
        None \<Rightarrow> ([], Panicked)
      | Some keypair \<Rightarrow>
     (case RelayListener_bind os_l (V4 0 25566) keypair of
        Inl e \<Rightarrow> ([], Ready (Err (ErrListen e)))
      | Inr listener \<Rightarrow>
     (case (if info then map_sum id (\<lambda>_. ()) (RelayListener_local_addr os_l listener) else Ok ()) of
        Inl e \<Rightarrow> ([], Ready (Err (ErrLocalAddr e)))
      | Inr _ \<Rightarrow>
          ([StartListenThread listener, StartStdinThread, StartUiThread keypair]
             @ map (\<lambda>connect_addr. ConnectTo connect_addr keypair) args
             @ [StartDiscoveryThread discovery_listener, RunRelay relay],
           Pending))))))"

section \<open>What the threads deliver\<close>

lemma strip_split:
  "\<exists>xs. set xs \<subseteq> set ws \<and> s = concat xs @ strip ws s \<and> (\<forall>w \<in> set ws. w \<noteq> [] \<longrightarrow> \<not> prefix w (strip ws s))"
proof (induction ws s rule: strip.induct)
  case (1 ws s)
  show ?case
  proof (cases "List.find (\<lambda>w. w \<noteq> [] \<and> prefix w s) ws")
    case None
    then have "strip ws s = s" by (simp add: strip.simps[of ws s])
    with None show ?thesis by (intro exI[of _ "[]"]) (auto simp: find_None_iff)
  next
    case (Some w)
    then have w: "w \<in> set ws" "prefix w s" by (auto simp: find_Some_iff)
    from "1.IH"[OF Some] obtain xs where xs: "set xs \<subseteq> set ws" "drop (length w) s = concat xs @ strip ws (drop (length w) s)"
      "\<forall>w' \<in> set ws. w' \<noteq> [] \<longrightarrow> \<not> prefix w' (strip ws (drop (length w) s))" by blast
    from w(2) have "s = w @ drop (length w) s" by (auto simp: prefix_def)
    then have "s = concat (w # xs) @ strip ws (drop (length w) s)" using xs(2) by simp
    with xs w(1) Some show ?thesis by (intro exI[of _ "w # xs"]) (simp add: strip.simps[of ws s])
  qed
qed

text \<open>White space at the ends, and none there.\<close>

definition blank :: "string \<Rightarrow> bool" where
  "blank s \<longleftrightarrow> (\<exists>xs. set xs \<subseteq> set white_space \<and> s = concat xs)"

definition trimmed :: "string \<Rightarrow> bool" where
  "trimmed s \<longleftrightarrow> (\<forall>w \<in> set white_space. \<not> prefix w s \<and> \<not> suffix w s)"

lemma white_space_nonempty: "w \<in> set white_space \<Longrightarrow> w \<noteq> []"
  by (auto simp: white_space_def)

lemma trim_spec: "\<exists>a b. s = a @ trim s @ b \<and> blank a \<and> blank b \<and> trimmed (trim s)"
proof -
  let ?t = "strip white_space s"
  obtain xs where xs: "set xs \<subseteq> set white_space" "s = concat xs @ ?t"
    "\<forall>w \<in> set white_space. w \<noteq> [] \<longrightarrow> \<not> prefix w ?t" using strip_split by blast
  obtain ys where ys: "set ys \<subseteq> set (map rev white_space)" "rev ?t = concat ys @ strip (map rev white_space) (rev ?t)"
    "\<forall>w \<in> set (map rev white_space). w \<noteq> [] \<longrightarrow> \<not> prefix w (strip (map rev white_space) (rev ?t))"
    using strip_split by blast
  have t: "?t = trim s @ rev (concat ys)"
    using arg_cong[OF ys(2), of rev] by (simp add: trim_def)
  have "blank (rev (concat ys))"
    unfolding blank_def using ys(1)
    by (intro exI[of _ "rev (map rev ys)"]) (auto simp: rev_concat rev_map)
  moreover have "\<not> prefix w (trim s)" if "w \<in> set white_space" for w
    using xs(3) that white_space_nonempty[OF that] t by (metis prefix_prefix prefixI)
  moreover have "\<not> suffix w (trim s)" if "w \<in> set white_space" for w
  proof -
    have "rev w \<in> set (map rev white_space)" "rev w \<noteq> []" using that white_space_nonempty[OF that] by auto
    with ys(3) have "\<not> prefix (rev w) (strip (map rev white_space) (rev ?t))" by blast
    then show ?thesis by (simp add: trim_def suffix_to_prefix)
  qed
  ultimately show ?thesis
    using xs(1,2) t unfolding trimmed_def blank_def by (metis append_assoc)
qed

text \<open>What ends the thread: the end of the input, an error, or that the user interface is gone.\<close>

fun stdin_stops :: "(string, io_error) result \<times> bool \<Rightarrow> bool" where
  "stdin_stops (Inl _, _) = True"
| "stdin_stops (Inr line, ui_open) = (line = '''' \<or> \<not> ui_open)"

text \<open>
  C33: the user interface gets what is typed: every line up to the end of the input, or an error, in order, with
  the white space at both ends (the line break among it) taken off and nothing else.
\<close>

theorem stdin_lines_trimmed:
  assumes "\<forall>line \<in> set lines. line \<noteq> ''''" "stdin_stops r"
  shows "stdin_loop (map (\<lambda>line. (Inr line, True)) lines @ r # rs) = (map (Input \<circ> trim) lines, True)
    \<and> (\<forall>line. \<exists>a b. line = a @ trim line @ b \<and> blank a \<and> blank b \<and> trimmed (trim line))"
proof -
  have "stdin_loop (map (\<lambda>line. (Inr line, True)) lines @ r # rs) = (map (Input \<circ> trim) lines, True)"
    using assms(1)
  proof (induction lines)
    case Nil
    from assms(2) show ?case by (cases r rule: stdin_stops.cases) auto
  qed simp
  then show ?thesis using trim_spec by blast
qed

theorem stdin_lines_trimmed_witness:
  "stdin_loop [(Inr ''  Yes '', True), (Inr [CHR 0x0A], True), (Inl TimedOut, True), (Inr ''x'', True)] = ([Input ''Yes'', Input ''''], True)"
proof -
  have "trim ''  Yes '' = ''Yes''" "trim [CHR 0x0A] = ''''" by code_simp+
  with stdin_lines_trimmed[of "[''  Yes '', [CHR 0x0A]]" "(Inl TimedOut, True)" "[(Inr ''x'', True)]"] show ?thesis by simp
qed

text \<open>The datagrams among the outcomes of \<open>recv_from\<close>, and what the relay is told of a packet.\<close>

definition datagrams :: "(bytes \<times> socket_addr, io_error) result list \<Rightarrow> (bytes \<times> socket_addr) list" where
  "datagrams rs = List.map_filter (case_sum (\<lambda>_. None) Some) rs"

definition local_game_message :: "socket_addr \<times> discovery_packet \<Rightarrow> message" where
  "local_game_message = (\<lambda>(from, packet). AddLocalGame from (dp_port packet) (dp_motd packet))"

lemma valid_packets_simps [simp]:
  "valid_packets N [] = []" "valid_packets N (xs @ ys) = valid_packets N xs @ valid_packets N ys"
  "datagrams [] = []" "datagrams (rs @ rs') = datagrams rs @ datagrams rs'" "datagrams [Inl e] = []"
  by (simp_all add: valid_packets_def datagrams_def List.map_filter_def)

lemma valid_packet_received:
  "Inr (d, from) \<in> set rs \<Longrightarrow> parse N (take MAX_PACKET_SIZE d) = Ok packet \<Longrightarrow> (from, packet) \<in> set (valid_packets N (datagrams rs))"
  by (force simp: valid_packets_def datagrams_def List.map_filter_def)

lemma listener_run_sends:
  assumes "DiscoveryListener_run N (\<lambda>from packet. RelayHandle_add_local_game (\<lambda>_. True) from (dp_port packet) (dp_motd packet)) rs sent
    = (r, rest, sent')"
  shows "\<exists>taken. rs = taken @ rest \<and> sent' = sent @ map local_game_message (valid_packets N (datagrams taken))
    \<and> (r = None \<and> rest = [] \<or> (\<exists>e. r = Some e))"
  using assms
proof (induction rs arbitrary: sent)
  case Nil
  then show ?case by simp
next
  case (Cons a rs)
  show ?case
  proof (cases a)
    case (Inl e)
    with Cons.prems show ?thesis by (intro exI[of _ "[a]"]) auto
  next
    case (Inr df)
    obtain d "from" where df: "df = (d, from)" by fastforce
    have "DiscoveryListener_run N (\<lambda>from packet. RelayHandle_add_local_game (\<lambda>_. True) from (dp_port packet) (dp_motd packet)) rs
        (sent @ map local_game_message (valid_packets N (datagrams [a]))) = (r, rest, sent')"
      using Cons.prems Inr df
      by (cases "parse N (take MAX_PACKET_SIZE d)")
        (simp_all add: valid_packets_def datagrams_def List.map_filter_simps RelayHandle_add_local_game_def relay_send_def[abs_def]
          local_game_message_def)
    from Cons.IH[OF this] obtain taken where "rs = taken @ rest"
      "sent' = (sent @ map local_game_message (valid_packets N (datagrams [a]))) @ map local_game_message (valid_packets N (datagrams taken))"
      "r = None \<and> rest = [] \<or> (\<exists>e. r = Some e)" by blast
    moreover have "datagrams (a # taken) = datagrams [a] @ datagrams taken"
      using valid_packets_simps(4)[of "[a]" taken] by simp
    ultimately show ?thesis by (intro exI[of _ "a # taken"]) simp
  qed
qed

lemma discovery_loop_eq:
  "discovery_loop N (\<lambda>_. True) rs sent = sent @ map local_game_message (valid_packets N (datagrams rs))"
proof (induction "length rs" arbitrary: rs sent rule: less_induct)
  case less
  let ?cb = "\<lambda>from packet. RelayHandle_add_local_game (\<lambda>_. True) from (dp_port packet) (dp_motd packet)"
  obtain r rest sent' where run: "DiscoveryListener_run N ?cb rs sent = (r, rest, sent')" by (rule prod_cases3)
  from listener_run_sends[OF run] obtain taken where taken: "rs = taken @ rest"
    "sent' = sent @ map local_game_message (valid_packets N (datagrams taken))" "r = None \<and> rest = [] \<or> (\<exists>e. r = Some e)" by blast
  from taken(3) show ?case
  proof (elim disjE exE)
    fix e
    assume e: "r = Some e"
    with run have "length rest < length rs" by (auto dest: DiscoveryListener_run_rest)
    from less[OF this, of sent'] run e have "discovery_loop N (\<lambda>_. True) rs sent
        = sent' @ map local_game_message (valid_packets N (datagrams rest))" by (simp add: discovery_loop.simps[of _ _ rs])
    then show ?thesis using taken(1,2) by simp
  qed (use run taken in \<open>simp add: discovery_loop.simps[of _ _ taken]\<close>)
qed

text \<open>
  C26: no advertisement of the LAN is lost. Whatever the socket yields, errors and datagrams that do not parse
  included, the thread goes on, and the relay is sent one message for each datagram that parses, with
  its sender, port and MOTD, in the order of arrival.
\<close>

theorem discovery_outlasts_errors:
  "discovery_loop N (\<lambda>_. True) rs sent = sent @ map local_game_message (valid_packets N (datagrams rs))"
  by (rule discovery_loop_eq)

text \<open>
  The calls to the system that \<open>main\<close> makes before it starts threads, in order; the first that fails
  decides the error, and then no thread has been started.
\<close>

lemma main_eq:
  assumes "RelayKeypair_generate B = Some keypair"
  shows "main info apple os_d os_s os_l B args =
    (case first_error os_d (listener_calls apple) of Some e \<Rightarrow> ([], Ready (Err (ErrDiscovery e)))
     | None \<Rightarrow> (case first_error os_s (sender_calls @ [LocalAddr]) of Some e \<Rightarrow> ([], Ready (Err (ErrRelay e)))
     | None \<Rightarrow> (case first_error os_l [TcpListen (V4 0 25566)] of Some e \<Rightarrow> ([], Ready (Err (ErrListen e)))
     | None \<Rightarrow> (case first_error os_l (if info then [LocalAddr] else []) of Some e \<Rightarrow> ([], Ready (Err (ErrLocalAddr e)))
     | None \<Rightarrow> ([StartListenThread \<lparr>rl_listener = [TcpListen (V4 0 25566)], rl_keypair = keypair\<rparr>,
           StartStdinThread, StartUiThread keypair] @ map (\<lambda>a. ConnectTo a keypair) args
           @ [StartDiscoveryThread (DiscoveryListener (listener_calls apple)),
              RunRelay (Relay_new (addr_port (os_local_addr os_s)))], Pending)))))"
  using assms
  by (simp add: main_def DiscoveryListener_new_eq Relay_open_eq try_all_def RelayListener_bind_def RelayListener_local_addr_def
      sys_on_def local_addr_of_def split: option.split sum.split)

text \<open>What a \<open>main\<close> that is running has started.\<close>

lemma main_running:
  assumes "main info apple os_d os_s os_l B args = (eff, Pending)"
  shows "StartDiscoveryThread (DiscoveryListener (listener_calls apple)) \<in> set eff"
    and "RunRelay (Relay_new (addr_port (os_local_addr os_s))) \<in> set eff"
proof -
  obtain keypair where "RelayKeypair_generate B = Some keypair"
    using assms by (cases "RelayKeypair_generate B") (auto simp: main_def split: sum.splits)
  from main_eq[OF this] assms show "StartDiscoveryThread (DiscoveryListener (listener_calls apple)) \<in> set eff"
    "RunRelay (Relay_new (addr_port (os_local_addr os_s))) \<in> set eff"
    by (auto split: option.splits if_splits)
qed

lemma main_ref:
  "main False False os_ref os_ref os_ref builder_ref [''a''] =
     ([StartListenThread \<lparr>rl_listener = [TcpListen (V4 0 25566)], rl_keypair = RelayKeypair (keypair_ref 1)\<rparr>,
       StartStdinThread, StartUiThread (RelayKeypair (keypair_ref 1)), ConnectTo ''a'' (RelayKeypair (keypair_ref 1)),
       StartDiscoveryThread (DiscoveryListener (listener_calls False)), RunRelay (Relay_new 5000)], Pending)"
proof -
  have gen: "RelayKeypair_generate builder_ref = Some (RelayKeypair (keypair_ref 1))"
    by (simp add: RelayKeypair_generate_def builder_ref_def keypair_ref_def)
  have ok: "first_error os_ref cs = None" for cs by (induction cs) (simp_all add: os_ref_def)
  show ?thesis
    unfolding main_eq[OF gen] by (simp add: ok, simp add: os_ref_def)
qed

end
