(* ===== verification/Approval.thy ===== *)
theory Approval
  imports Relay_Handle Main_Start
begin

text \<open>
  The threads that accept relays, the closure with which \<open>listen_loop\<close> of \<open>relay/src/main.rs\<close> asks the
  user, the thread that reads standard input and the user interface, together: questions go to the
  user interface through its queue, one at a time, and answers come back through a channel of each
  question.
\<close>

section \<open>The threads together\<close>

text \<open>
  The state: that of \<open>RelayHandle::listen\<close>, that of the user interface and its queue, the channel on which
  the closure waits for an answer, the number of the next channel, and what the user interface took from
  the user, each with the prompt it had printed before.
\<close>

record approval_state =
  ap_listen :: listen_state
  ap_ui :: ui_state
  ap_queue :: "ui_message list"
  ap_waiting :: "nat option"
  ap_next :: nat
  ap_log :: "(ui_prompt \<times> string) list"

definition approval_init :: approval_state where
  "approval_init = \<lparr>ap_listen = listen_init, ap_ui = ui_init, ap_queue = [], ap_waiting = None, ap_next = 0, ap_log = []\<rparr>"

datatype 'n approval_event =
    Net "'n listen_event"
  | Ask socket_addr
  | Typed string
  | UiTurn

text \<open>
  \<open>reply_rx.recv()\<close> returns: with the answer that was sent, or with a no when the channel was dropped. An
  answer on a channel that nobody waits for is lost.
\<close>

definition reply :: "nat \<Rightarrow> bool \<Rightarrow> approval_state \<Rightarrow> approval_state" where
  "reply r b s =
     (if ap_waiting s = Some r then
        (case RelayHandle_listen (Answered b :: unit listen_event) (ap_listen s) of
           Some l \<Rightarrow> s\<lparr>ap_listen := l, ap_waiting := None\<rparr>
         | None \<Rightarrow> s)
      else s)"

fun ui_reply :: "ui_effect \<Rightarrow> approval_state \<Rightarrow> approval_state" where
  "ui_reply (ReplyTrue r) s = reply r True s"
| "ui_reply (DropReply r) s = reply r False s"
| "ui_reply _ s = s"

text \<open>
  The closure of \<open>listen_loop\<close>, called for the first question when no other one is open: the peer's address
  and key go to the user interface with a new channel.
\<close>

definition ask_user :: "socket_addr \<Rightarrow> approval_state \<Rightarrow> approval_state option" where
  "ask_user peer_addr s =
     (if ap_waiting s \<noteq> None then None
      else case asking (ap_listen s) of
        [] \<Rightarrow> None
      | (_, key) # _ \<Rightarrow>
          Some (s\<lparr>ap_queue := ap_queue s @ [AcceptConnection peer_addr key (ap_next s)],
                  ap_waiting := Some (ap_next s), ap_next := Suc (ap_next s)\<rparr>))"

fun approval_step :: "relay_static_key \<Rightarrow> 'n approval_event \<Rightarrow> approval_state \<Rightarrow> approval_state option" where
  "approval_step public (Net ev) s =
     (case ev of
        Answered _ \<Rightarrow> None
      | _ \<Rightarrow> map_option (\<lambda>l. s\<lparr>ap_listen := l\<rparr>) (RelayHandle_listen ev (ap_listen s)))"
| "approval_step public (Ask peer_addr) s = ask_user peer_addr s"
| "approval_step public (Typed line) s = Some (s\<lparr>ap_queue := ap_queue s @ [Input (trim line)]\<rparr>)"
| "approval_step public UiTurn s =
     (case ap_queue s of
        [] \<Rightarrow> None
      | m # q \<Rightarrow>
          (let (ui, eff) = ui_step public m (ap_ui s);
               shown = (case m of Input t \<Rightarrow> [(ui_prompt (ap_ui s), t)] | _ \<Rightarrow> [])
           in Some (fold ui_reply eff (s\<lparr>ap_ui := ui, ap_queue := q, ap_log := ap_log s @ shown\<rparr>))))"

section \<open>The user's word\<close>

definition user_said_yes :: "relay_static_key \<Rightarrow> approval_state \<Rightarrow> bool" where
  "user_said_yes key s \<longleftrightarrow> (\<exists>addr t. (AskAccept addr key, t) \<in> set (ap_log s) \<and> says_yes t)"

text \<open>A question that is under way: in the queue, or with the user interface.\<close>

definition open_question :: "approval_state \<Rightarrow> relay_static_key \<Rightarrow> nat \<Rightarrow> bool" where
  "open_question s key r \<longleftrightarrow>
     (\<exists>addr. AcceptConnection addr key r \<in> set (ap_queue s) \<or> waiting_peer (ap_ui s) = Some (addr, key, r))"

definition approval_ok :: "relay_static_key \<Rightarrow> approval_state \<Rightarrow> bool" where
  "approval_ok public s \<longleftrightarrow>
     approved_only (ap_listen s)
     \<and> (\<forall>key. (key, True) \<in> set (answers (ap_listen s)) \<longrightarrow> key \<noteq> public \<and> user_said_yes key s)
     \<and> (\<forall>key r. open_question s key r \<longrightarrow> r < ap_next s \<and>
          (ap_waiting s = Some r \<longrightarrow> (\<exists>n rest. asking (ap_listen s) = (n, key) # rest)))
     \<and> (\<forall>addr key r. waiting_peer (ap_ui s) = Some (addr, key, r) \<longrightarrow> key \<noteq> public)"

lemma approval_okI:
  assumes "approved_only (ap_listen s)"
    and "\<And>key. (key, True) \<in> set (answers (ap_listen s)) \<Longrightarrow> key \<noteq> public \<and> user_said_yes key s"
    and "\<And>key r. open_question s key r \<Longrightarrow> r < ap_next s"
    and "\<And>key r. open_question s key r \<Longrightarrow> ap_waiting s = Some r \<Longrightarrow> \<exists>n rest. asking (ap_listen s) = (n, key) # rest"
    and "\<And>addr key r. waiting_peer (ap_ui s) = Some (addr, key, r) \<Longrightarrow> key \<noteq> public"
  shows "approval_ok public s"
  using assms by (auto simp: approval_ok_def)

lemma approval_okD:
  assumes "approval_ok public s"
  shows "approved_only (ap_listen s)"
    and "(key, True) \<in> set (answers (ap_listen s)) \<Longrightarrow> key \<noteq> public \<and> user_said_yes key s"
    and "open_question s key r \<Longrightarrow> r < ap_next s"
    and "open_question s key r \<Longrightarrow> ap_waiting s = Some r \<Longrightarrow> \<exists>n rest. asking (ap_listen s) = (n, key) # rest"
    and "waiting_peer (ap_ui s) = Some (addr, key, r) \<Longrightarrow> key \<noteq> public"
  using assms by (auto simp: approval_ok_def)

lemma listen_keeps:
  assumes "RelayHandle_listen ev l = Some l'" "\<And>b. ev \<noteq> Answered b"
  shows "answers l' = answers l \<and> (\<exists>new. asking l' = asking l @ new)"
  using assms
  by (cases ev) (auto simp: RelayHandle_accept_def Let_def split: option.splits if_splits prod.splits peer_id.splits)

lemma approved_step: "approved_only l \<Longrightarrow> RelayHandle_listen ev l = Some l' \<Longrightarrow> approved_only l'"
  using approval_machine.step_inv[of l ev] by simp

lemma approval_ok_net:
  assumes "approval_ok public s" "RelayHandle_listen ev (ap_listen s) = Some l" "\<And>b. ev \<noteq> Answered b"
  shows "approval_ok public (s\<lparr>ap_listen := l\<rparr>)"
proof -
  obtain new where "answers l = answers (ap_listen s)" "asking l = asking (ap_listen s) @ new"
    using listen_keeps[OF assms(2,3)] by blast
  with assms(1) approved_step[OF approval_okD(1)[OF assms(1)] assms(2)] show ?thesis
    by (fastforce simp: approval_ok_def user_said_yes_def open_question_def)
qed

text \<open>An answer on the channel of an open question is one for its key.\<close>

lemma approval_ok_reply:
  assumes "approval_ok public s" "ap_waiting s = Some r \<Longrightarrow> \<exists>n rest. asking (ap_listen s) = (n, key) # rest"
    and "b \<Longrightarrow> key \<noteq> public \<and> user_said_yes key s"
  shows "approval_ok public (reply r b s)"
proof (cases "ap_waiting s = Some r")
  case True
  with assms(2) obtain n rest where ask: "asking (ap_listen s) = (n, key) # rest" by blast
  obtain l where l: "RelayHandle_listen (Answered b :: unit listen_event) (ap_listen s) = Some l"
    "answers l = (key, b) # answers (ap_listen s)"
    by (simp add: ask Let_def)
  from approved_step[OF approval_okD(1)[OF assms(1)] l(1)] have "approved_only l" .
  moreover have "open_question (s\<lparr>ap_listen := l, ap_waiting := None\<rparr>) = open_question s"
    "user_said_yes k (s\<lparr>ap_listen := l, ap_waiting := None\<rparr>) = user_said_yes k s" for k
    by (auto simp: open_question_def user_said_yes_def fun_eq_iff)
  ultimately show ?thesis
    using True l assms(1,3) by (auto simp: reply_def approval_ok_def simp del: RelayHandle_listen.simps)
next
  case False
  with assms(1) show ?thesis by (simp add: reply_def)
qed

lemma approval_ok_ui:
  assumes "approval_ok public s" "ap_queue s = m # q" "ui_step public m (ap_ui s) = (ui, eff)"
    and "shown = (case m of Input t \<Rightarrow> [(ui_prompt (ap_ui s), t)] | _ \<Rightarrow> [])"
  shows "approval_ok public (fold ui_reply eff (s\<lparr>ap_ui := ui, ap_queue := q, ap_log := ap_log s @ shown\<rparr>))"
proof -
  let ?s = "s\<lparr>ap_ui := ui, ap_queue := q, ap_log := ap_log s @ shown\<rparr>"
  have yes: "user_said_yes k s \<Longrightarrow> user_said_yes k ?s" for k by (auto simp: user_said_yes_def)
  have wait: "waiting_peer ui = Some (a, k, r) \<Longrightarrow> waiting_peer (ap_ui s) = Some (a, k, r) \<or> m = AcceptConnection a k r \<and> k \<noteq> public" for a k r
    using ui_step_waiting[of public m "ap_ui s" a k r] by (simp add: assms(3))
  then have quest: "open_question ?s k r \<Longrightarrow> open_question s k r" for k r
    by (auto simp: open_question_def assms(2))
  have ok: "approval_ok public ?s"
    by (rule approval_okI) (use approval_okD[OF assms(1)] yes quest wait in \<open>simp; blast\<close>)+
  show ?thesis
  proof (cases m)
    case (AcceptConnection a k r)
    have q: "open_question s k r" by (auto simp: open_question_def assms(2) AcceptConnection)
    show ?thesis
    proof (cases "k = public")
      case True
      then have "eff = [DropReply r]" using assms(3) by (simp add: AcceptConnection)
      then show ?thesis
        using approval_ok_reply[OF ok, of r k False] approval_okD(4)[OF assms(1) q] by simp
    next
      case False
      then have eff: "eff = drop_waiting (ap_ui s)" using assms(3) by (simp add: AcceptConnection)
      show ?thesis
      proof (cases "waiting_peer (ap_ui s)")
        case None
        then show ?thesis using ok eff by (simp add: drop_waiting_def)
      next
        case (Some w)
        obtain a' k' r' where w: "w = (a', k', r')" by (rule prod_cases3)
        have "open_question s k' r'" using Some w by (auto simp: open_question_def)
        then show ?thesis
          using approval_ok_reply[OF ok, of r' k' False] approval_okD(4)[OF assms(1), of k' r'] Some w eff
          by (simp add: drop_waiting_def)
      qed
    qed
  next
    case (Input t)
    show ?thesis
    proof (cases "waiting_peer (ap_ui s)")
      case None
      then have "\<forall>e \<in> set eff. ui_reply e = id"
        using assms(3) by (auto simp: Input Let_def fun_eq_iff split: if_splits option.splits)
      then have "fold ui_reply eff ?s = ?s" by (induction eff arbitrary: s) (simp_all add: id_def)
      then show ?thesis using ok by simp
    next
      case (Some w)
      obtain a k r where w: "w = (a, k, r)" by (rule prod_cases3)
      have q: "open_question s k r" using Some w by (auto simp: open_question_def)
      have "user_said_yes k ?s" if "says_yes t"
        using that Some w by (auto simp: user_said_yes_def assms(4) Input ui_prompt_def)
      moreover have "k \<noteq> public" using approval_okD(5)[OF assms(1)] Some w by blast
      moreover have "eff = (if says_yes t then [ReplyTrue r] else if map ascii_lower t \<in> {''n'', ''no''} then [DropReply r] else [])"
        using assms(3) Some w by (auto simp: Input says_yes_def Let_def split: if_splits)
      ultimately show ?thesis
        using approval_ok_reply[OF ok, of r k True] approval_ok_reply[OF ok, of r k False]
          approval_okD(4)[OF assms(1) q] ok by auto
    qed
  qed
qed

lemma approval_ok_ask:
  assumes "approval_ok public s" "ask_user peer_addr s = Some s'"
  shows "approval_ok public s'"
proof -
  obtain n key rest where ask: "ap_waiting s = None" "asking (ap_listen s) = (n, key) # rest"
    and s': "s' = s\<lparr>ap_queue := ap_queue s @ [AcceptConnection peer_addr key (ap_next s)],
      ap_waiting := Some (ap_next s), ap_next := Suc (ap_next s)\<rparr>"
    using assms(2) by (auto simp: ask_user_def split: if_splits list.splits)
  have quest: "open_question s' k r \<longleftrightarrow> open_question s k r \<or> k = key \<and> r = ap_next s" for k r
    by (auto simp: open_question_def s')
  have yes: "user_said_yes k s' = user_said_yes k s" for k by (simp add: user_said_yes_def s')
  note old = approval_okD[OF assms(1)]
  show ?thesis
  proof (rule approval_okI)
    show "\<exists>n rest. asking (ap_listen s') = (n, k) # rest" if "open_question s' k r" "ap_waiting s' = Some r" for k r
      using that quest[of k r] old(3)[of k r] ask by (auto simp: s')
    show "r < ap_next s'" if "open_question s' k r" for k r
      using that quest[of k r] old(3)[of k r] by (auto simp: s')
  qed (use old yes in \<open>auto simp: s'\<close>)
qed

interpretation approval: event_machine "approval_step public" "\<lambda>_. True" "approval_ok public"
proof
  show "pred_option (approval_ok public) (approval_step public ev s)" if ok: "approval_ok public s" for ev :: "'a approval_event" and s
  proof (cases ev)
    case (Net lev)
    show ?thesis
    proof (cases "RelayHandle_listen lev (ap_listen s)")
      case (Some l)
      with approval_ok_net[OF ok Some] Net show ?thesis by (cases lev) auto
    qed (auto simp: Net split: listen_event.split)
  next
    case (Ask a)
    then show ?thesis using approval_ok_ask[OF ok, of a] by (cases "ask_user a s") auto
  next
    case (Typed t)
    have "open_question (s\<lparr>ap_queue := ap_queue s @ [Input (trim t)]\<rparr>) = open_question s"
      by (auto simp: open_question_def fun_eq_iff)
    then show ?thesis using ok by (simp add: Typed approval_ok_def user_said_yes_def)
  next
    case UiTurn
    then show ?thesis
      using approval_ok_ui[OF ok] by (cases "ap_queue s") (auto split: prod.split)
  qed
qed

lemma approval_ok_init: "approval_ok public approval_init"
  by (simp add: approval_ok_def approval_init_def approved_only_def listen_init_def open_question_def ui_init_def)

lemma approval_reached:
  fixes es :: "'n approval_event list"
  assumes "exec_events (approval_step public) es approval_init = Some s"
  shows "approval_ok public s"
  by (rule approval.exec_inv[OF approval_ok_init _ assms]) simp

lemma yes_lets_in:
  assumes "approval_ok public s" "ap_waiting s = Some r" "waiting_peer (ap_ui s) = Some (addr, key, r)"
    and "ap_queue s = Input t # q" "says_yes t"
  shows "\<exists>n s'. approval_step public UiTurn s = Some s' \<and> (n, key) \<in> set (running_conns (ap_listen s'))
    \<and> key \<in> trusted_peers (ap_listen s')"
proof -
  have "open_question s key r" using assms(3) by (auto simp: open_question_def)
  from approval_okD(4)[OF assms(1) this assms(2)] obtain n rest where "asking (ap_listen s) = (n, key) # rest" by blast
  then show ?thesis
    using assms(2-5) by (intro exI[of _ n]) (auto simp: says_yes_def reply_def Let_def)
qed

text \<open>
  C8: a relay is let in by the user and by nobody else. However the network, the threads and the user
  interface take turns, every connection from another relay that is run has a key that is not this
  relay's own, and after the prompt that shows this very key the user interface took a line of the user
  that is \<open>y\<close>, \<open>yes\<close> in any case, or empty. And such a line is enough: when the prompt shows the question
  that is waited for, the connection is run and its key is trusted from then on.
\<close>

theorem user_lets_in:
  fixes es :: "'n approval_event list"
  assumes "exec_events (approval_step public) es approval_init = Some s"
  shows "(\<forall>n key. (n, key) \<in> set (running_conns (ap_listen s)) \<longrightarrow>
        key \<noteq> public \<and> (\<exists>addr t. (AskAccept addr key, t) \<in> set (ap_log s) \<and> says_yes t))
    \<and> (\<forall>r addr key t q. ap_waiting s = Some r \<and> waiting_peer (ap_ui s) = Some (addr, key, r)
          \<and> ap_queue s = Input t # q \<and> says_yes t \<longrightarrow>
        (\<exists>n s'. approval_step public (UiTurn :: 'n approval_event) s = Some s'
          \<and> (n, key) \<in> set (running_conns (ap_listen s')) \<and> key \<in> trusted_peers (ap_listen s')))"
proof -
  note ok = approval_reached[OF assms]
  have "key \<noteq> public \<and> user_said_yes key s" if "(n, key) \<in> set (running_conns (ap_listen s))" for n key
    using approval_okD(1)[OF ok] that by (intro approval_okD(2)[OF ok]) (auto simp: approved_only_def)
  with yes_lets_in[OF ok] show ?thesis unfolding user_said_yes_def by blast
qed

theorem user_lets_in_witness:
  "\<exists>s. exec_events (approval_step (RelayStaticKey [9])) ([Net (ConnAccepted 0),
        Net (ConnHandshaken 0 (Ok (RelayStaticKey [1], RelayConnectionHandle 4)) True), Ask (V4 1 2), UiTurn, Typed ''y'', UiTurn]
        :: unit approval_event list) approval_init = Some s
    \<and> (0, RelayStaticKey [1]) \<in> set (running_conns (ap_listen s))
    \<and> (\<exists>addr t. (AskAccept addr (RelayStaticKey [1]), t) \<in> set (ap_log s) \<and> says_yes t)"
proof -
  have trim: "trim ''y'' = ''y''" "map ascii_lower ''y'' = ''y''" by code_simp+
  obtain s where s: "exec_events (approval_step (RelayStaticKey [9])) ([Net (ConnAccepted 0),
        Net (ConnHandshaken 0 (Ok (RelayStaticKey [1], RelayConnectionHandle 4)) True), Ask (V4 1 2), UiTurn, Typed ''y'', UiTurn]
        :: unit approval_event list) approval_init = Some s" "(0, RelayStaticKey [1]) \<in> set (running_conns (ap_listen s))"
    using trim(2)
    by (simp add: approval_init_def listen_init_def ui_init_def RelayHandle_accept_def PeerConnection_new_def ask_user_def
        trim(1) reply_def drop_waiting_def Let_def)
  with user_lets_in[OF s(1)] show ?thesis by blast
qed

text \<open>
  The line need not have been meant for the prompt: one that was typed before the prompt appeared, to stop
  an attempt to connect, say, is taken for the answer when the question is before it in the queue.
\<close>

lemma typed_ahead_lets_in:
  "\<exists>s s'. exec_events (approval_step (RelayStaticKey [9])) ([Net (ConnAccepted 0),
        Net (ConnHandshaken 0 (Ok (RelayStaticKey [1], RelayConnectionHandle 4)) True), Ask (V4 1 2), Typed []]
        :: unit approval_event list) approval_init = Some s
    \<and> ui_prompt (ap_ui s) = AskHost
    \<and> exec_events (approval_step (RelayStaticKey [9])) ([UiTurn, UiTurn] :: unit approval_event list) s = Some s'
    \<and> (0, RelayStaticKey [1]) \<in> set (running_conns (ap_listen s'))"
proof -
  have "trim [] = []" by code_simp
  then show ?thesis
    by (simp add: approval_init_def listen_init_def ui_init_def RelayHandle_accept_def PeerConnection_new_def ask_user_def
        reply_def ui_prompt_def drop_waiting_def Let_def)
qed

end
