(* ===== verification/Game_Listener.thy ===== *)
theory Game_Listener
  imports Relay_Types
begin

text \<open>
  \<open>relay/src/game/listener.rs\<close>: the loop that accepts players for one advertised game and the handle
  that keeps it alive. The two run on different threads and share a flag through a reference-counted
  cell: the loop owns a strong reference, the handle a weak one that it upgrades. Each atomic access of
  either side is one step; a run is an interleaving of such steps. The accesses are taken to be
  sequentially consistent.
\<close>

section \<open>The shared cell and the two threads\<close>

text \<open>
  Where the accept loop stands: before the listener is made asynchronous; waiting for \<open>accept\<close> or the timeout; after a connection was handed
  on, before the flag is reset; after a timeout, before the flag is swapped; after the swap gave
  \<open>false\<close>, before \<open>Arc::try_unwrap\<close>; or returned.
\<close>

datatype 'e run_error = RunIo io_error | RunReturned 'e

datatype 'e listener_pc =
    Starting
  | Accepting
  | HandedOn
  | TimedOutPc
  | Unwrapping
  | Returned "(unit, 'e run_error) result"

text \<open>Where a call of \<open>keepalive\<close> stands: before it, after the upgrade, after the store, or returned.\<close>

datatype handle_pc = HIdle | HUpgraded | HStored

record 'e keepalive_state =
  strong :: nat
  flag :: bool
  listener_at :: "'e listener_pc"
  handle_at :: handle_pc
  last_result :: "bool option"

text \<open>A listener right after \<open>GameListener::new\<close> and \<open>handle\<close>: one strong reference, flag unset.\<close>

definition GameListener_new :: "'e keepalive_state" where
  "GameListener_new = \<lparr>strong = 1, flag = False, listener_at = Starting, handle_at = HIdle, last_result = None\<rparr>"

text \<open>
  \<open>GameListener::new\<close> opens a listener on a port the system chooses and asks for its address; the
  handle is the one that \<open>handle\<close> gives out for the new cell.
\<close>

definition GameListener_open :: "os \<Rightarrow> game_listener_handle \<Rightarrow> (game_listener, io_error) result" where
  "GameListener_open os handle =
     and_then (sys_on os (TcpListen (V4 0 0)) []) (\<lambda>listener.
     and_then (local_addr_of os listener) (\<lambda>local_addr.
     Ok \<lparr>gl_local_addr = local_addr, gl_keepalive = handle\<rparr>))"

text \<open>
  Actions of the accept loop. \<open>Accept\<close> carries what \<open>accept\<close> or the timeout gave, the outcome of
  \<open>GameConnection::new\<close> and that of the callback. Returning drops the strong reference.
\<close>

datatype 'e listener_action =
    TryFrom "(unit, io_error) result"
  | Accept "(unit, io_error) result" "(unit, io_error) result" "(unit, 'e) result"
  | StoreFalse
  | Swap
  | TryUnwrap

definition listener_return :: "(unit, 'e run_error) result \<Rightarrow> 'e keepalive_state \<Rightarrow> 'e keepalive_state" where
  "listener_return r s = s\<lparr>strong := strong s - 1, listener_at := Returned r\<rparr>"

fun GameListener_run :: "'e listener_action \<Rightarrow> 'e keepalive_state \<Rightarrow> 'e keepalive_state option" where
  "GameListener_run (TryFrom r) s =
     (if listener_at s \<noteq> Starting then None
      else Some (case r of
          Inl error \<Rightarrow> listener_return (Err (RunIo error)) s
        | Inr _ \<Rightarrow> s\<lparr>listener_at := Accepting\<rparr>))"
| "GameListener_run (Accept accepted new called) s =
     (if listener_at s \<noteq> Accepting then None
      else Some (case accepted of
          Inr _ \<Rightarrow>
            (case new of
               Inl error \<Rightarrow> listener_return (Err (RunIo error)) s
             | Inr _ \<Rightarrow>
                 (case called of
                    Inl error \<Rightarrow> listener_return (Err (RunReturned error)) s
                  | Inr _ \<Rightarrow> s\<lparr>listener_at := HandedOn\<rparr>))
        | Inl error \<Rightarrow>
            (if error = TimedOut then s\<lparr>listener_at := TimedOutPc\<rparr>
             else listener_return (Err (RunIo error)) s)))"
| "GameListener_run StoreFalse s =
     (if listener_at s \<noteq> HandedOn then None else Some (s\<lparr>flag := False, listener_at := Accepting\<rparr>))"
| "GameListener_run Swap s =
     (if listener_at s \<noteq> TimedOutPc then None
      else Some (s\<lparr>flag := False, listener_at := (if flag s then Accepting else Unwrapping)\<rparr>))"
| "GameListener_run TryUnwrap s =
     (if listener_at s \<noteq> Unwrapping then None
      else Some (if strong s = 1 then listener_return (Ok ()) s else s\<lparr>listener_at := Accepting\<rparr>))"

text \<open>
  Actions of \<open>GameListenerHandle::keepalive\<close>: \<open>upgrade\<close> succeeds exactly when a strong reference is
  left; then the flag is set, and the upgraded reference is dropped when the call returns.
\<close>

datatype handle_action = Upgrade | StoreTrue | DropRef

fun keepalive :: "handle_action \<Rightarrow> 'e keepalive_state \<Rightarrow> 'e keepalive_state option" where
  "keepalive Upgrade s =
     (if handle_at s \<noteq> HIdle then None
      else if strong s = 0 then Some (s\<lparr>last_result := Some False\<rparr>)
      else Some (s\<lparr>strong := strong s + 1, handle_at := HUpgraded\<rparr>))"
| "keepalive StoreTrue s =
     (if handle_at s \<noteq> HUpgraded then None else Some (s\<lparr>flag := True, handle_at := HStored\<rparr>))"
| "keepalive DropRef s =
     (if handle_at s \<noteq> HStored then None
      else Some (s\<lparr>strong := strong s - 1, handle_at := HIdle, last_result := Some True\<rparr>))"

datatype 'e keepalive_action = L "'e listener_action" | H handle_action

fun keepalive_exec :: "'e keepalive_action \<Rightarrow> 'e keepalive_state \<Rightarrow> 'e keepalive_state option" where
  "keepalive_exec (L a) s = GameListener_run a s"
| "keepalive_exec (H a) s = keepalive a s"

text \<open>A run: the interleaved actions of both threads.\<close>

abbreviation exec_all :: "'e keepalive_action list \<Rightarrow> 'e keepalive_state \<Rightarrow> 'e keepalive_state option" where
  "exec_all \<equiv> exec_events keepalive_exec"

inductive keepalive_step :: "'e keepalive_state \<Rightarrow> 'e keepalive_state \<Rightarrow> bool" where
  listener: "GameListener_run a s = Some s' \<Longrightarrow> keepalive_step s s'"
| handle: "keepalive a s = Some s' \<Longrightarrow> keepalive_step s s'"

inductive_cases keepalive_stepE: "keepalive_step s s'"

inductive keepalive_reachable :: "'e keepalive_state \<Rightarrow> bool" where
  init: "keepalive_reachable GameListener_new"
| step: "keepalive_reachable s \<Longrightarrow> keepalive_step s s' \<Longrightarrow> keepalive_reachable s'"

section \<open>The reference count\<close>

definition running :: "'e keepalive_state \<Rightarrow> bool" where
  "running s \<longleftrightarrow> (case listener_at s of Returned _ \<Rightarrow> False | _ \<Rightarrow> True)"

text \<open>The strong count is the number of references held: one of a running loop, one of a call.\<close>

definition refs_counted :: "'e keepalive_state \<Rightarrow> bool" where
  "refs_counted s \<longleftrightarrow> strong s = (if running s then 1 else 0) + (if handle_at s = HIdle then 0 else 1)"

lemma running_simps [simp]:
  "running (s\<lparr>listener_at := Returned r\<rparr>) \<longleftrightarrow> False"
  "running (s\<lparr>listener_at := Accepting\<rparr>)" "running (s\<lparr>listener_at := HandedOn\<rparr>)"
  "running (s\<lparr>listener_at := TimedOutPc\<rparr>)" "running (s\<lparr>listener_at := Unwrapping\<rparr>)"
  "running (s\<lparr>strong := n\<rparr>) = running s" "running (s\<lparr>flag := b\<rparr>) = running s"
  "running (s\<lparr>handle_at := h\<rparr>) = running s" "running (s\<lparr>last_result := x\<rparr>) = running s"
  by (simp_all add: running_def)

lemma at_running: "listener_at s \<in> {Starting, Accepting, HandedOn, TimedOutPc, Unwrapping} \<Longrightarrow> running s"
  by (auto simp: running_def)

lemma refs_counted_listener: "refs_counted s \<Longrightarrow> pred_option refs_counted (GameListener_run a s)"
  using at_running[of s]
  by (cases a) (simp_all add: refs_counted_def listener_return_def split: sum.split)

lemma refs_counted_handle: "refs_counted s \<Longrightarrow> pred_option refs_counted (keepalive a s)"
  by (cases a) (simp_all add: refs_counted_def)

lemma refs_counted_reachable: "keepalive_reachable s \<Longrightarrow> refs_counted s"
proof (induction rule: keepalive_reachable.induct)
  case init
  show ?case by (simp add: GameListener_new_def refs_counted_def running_def)
next
  case (step s s')
  from step.hyps(2) show ?case
  proof (cases rule: keepalive_step.cases)
    case (listener a)
    with refs_counted_listener[OF step.IH, of a] show ?thesis by simp
  next
    case (handle a)
    with refs_counted_handle[OF step.IH, of a] show ?thesis by simp
  qed
qed

interpretation keepalive_machine: event_machine keepalive_exec "\<lambda>_. True" keepalive_reachable
proof
  show "pred_option keepalive_reachable (keepalive_exec a s)"
    if "keepalive_reachable s" for a :: "'a keepalive_action" and s
    using that by (cases a; cases "keepalive_exec a s") (auto intro: keepalive_reachable.step keepalive_step.intros)
qed

section \<open>What keepalive promises\<close>

abbreviation accept_timeout :: "'e keepalive_action" where
  "accept_timeout \<equiv> L (Accept (Err TimedOut) (Ok ()) (Ok ()))"

text \<open>
  C32: a listener that nobody keeps alive stops. From wherever it waits, with no call of \<open>keepalive\<close> in
  progress, one timeout, or two when the flag is still set, end the loop with \<open>Ok\<close>, and no reference
  is left.
\<close>

theorem idle_listener_stops:
  assumes "keepalive_reachable s" "handle_at s = HIdle" "listener_at s = Accepting"
  shows "\<exists>s'. exec_all ((if flag s then [accept_timeout, L Swap] else []) @ [accept_timeout, L Swap, L TryUnwrap]) s = Some s'
    \<and> listener_at s' = Returned (Ok ()) \<and> strong s' = 0"
  using refs_counted_reachable[OF assms(1)] assms(2,3)
  by (auto simp: refs_counted_def running_def listener_return_def)

theorem idle_listener_stops_witness:
  "\<exists>s s'. exec_all [L (TryFrom (Ok ()))] (GameListener_new :: unit keepalive_state) = Some s
    \<and> exec_all [accept_timeout, L Swap, L TryUnwrap] s = Some s' \<and> listener_at s' = Returned (Ok ()) \<and> strong s' = 0"
proof -
  obtain s where s: "exec_all [L (TryFrom (Ok ()))] (GameListener_new :: unit keepalive_state) = Some s"
    "listener_at s = Accepting" "handle_at s = HIdle" "\<not> flag s"
    by (simp add: GameListener_new_def)
  have "keepalive_reachable s"
    by (rule keepalive_machine.exec_inv[OF keepalive_reachable.init _ s(1)]) simp
  from idle_listener_stops[OF this s(3,2)] s(1,4) show ?thesis by auto
qed


definition swaps :: "'e keepalive_action list \<Rightarrow> nat" where
  "swaps as = length (filter (\<lambda>a. a = L Swap) as)"

lemma swaps_simps [simp]: "swaps [] = 0" "swaps (a # as) = (if a = L Swap then 1 else 0) + swaps as"
  by (simp_all add: swaps_def)






end
