(* ===== verification/Relay_Ops.thy ===== *)
theory Relay_Ops
  imports Relay_Types
begin

text \<open>
  The handlers of \<open>impl Relay\<close>, \<open>relay/src/relay.rs\<close>, in the order of dependence. A handler maps the
  environment of the step, its arguments and the relay to the new relay and the list of effects;
  where a call below it can panic, the result is an option and \<open>None\<close> is the panic. Logging has no
  effect on the state and is left out, as is the shrinking of a hash map, which keeps its entries.
\<close>

section \<open>Removing peers\<close>

fun cleanup_removed_game :: "relay \<Rightarrow> game \<Rightarrow> relay" where
  "cleanup_removed_game s (Remote g) =
     (case rgame_listener g of
        Some listener \<Rightarrow> s\<lparr>listen_ports := listen_ports s - {addr_port (rgl_addr listener)}\<rparr>
      | None \<Rightarrow> s)"
| "cleanup_removed_game s (Local _) = s"

text \<open>The first loop of \<open>remove_peer\<close>: the games the peer's entries lead to leave the map.\<close>

fun take_games :: "relayed_game list \<Rightarrow> relay \<Rightarrow> game list \<times> relay" where
  "take_games [] s = ([], s)"
| "take_games (g # gs) s =
     (case im_map (games s) (rg_local_game_id g) of
        Some game \<Rightarrow>
          (let (removed, s') = take_games gs
             (s\<lparr>games := (games s)\<lparr>im_map := (im_map (games s))(rg_local_game_id g := None)\<rparr>\<rparr>)
           in (game # removed, s'))
      | None \<Rightarrow> take_games gs s)"

definition remove_peer :: "relay_env \<Rightarrow> peer_id \<Rightarrow> relay \<Rightarrow> relay" where
  "remove_peer env peer_id s =
     (case peers s peer_id of
        None \<Rightarrow> s
      | Some peer \<Rightarrow>
          (let s = s\<lparr>peers := (peers s)(peer_id := None)\<rparr>;
               entries = List.map_filter (peer_games peer) (iter_games env peer_id (peer_games peer));
               (removed_games, s) = take_games entries s
           in foldl cleanup_removed_game s removed_games))"

text \<open>The loops that end a broadcast: \<open>for peer_id in errors { self.remove_peer(&peer_id) }\<close>.\<close>

definition remove_peers :: "relay_env \<Rightarrow> peer_id list \<Rightarrow> relay \<Rightarrow> relay" where
  "remove_peers env errors s = foldl (\<lambda>s peer_id. remove_peer env peer_id s) s errors"

section \<open>Broadcasting\<close>

text \<open>
  A loop over peers that sends each the same message and collects those whose channel is closed.
\<close>

fun send_each :: "relay_env \<Rightarrow> relay_message \<Rightarrow> (peer_id \<rightharpoonup> peer) \<Rightarrow> peer_id list \<Rightarrow> effect list \<times> peer_id list" where
  "send_each env m ps [] = ([], [])"
| "send_each env m ps (peer_id # ids) =
     (let (sent, errors) = send_each env m ps ids in
      case ps peer_id of
        None \<Rightarrow> (sent, errors)
      | Some peer \<Rightarrow>
          (if send_ok env (peer_handle peer)
           then (SendPeer (peer_handle peer) m # sent, errors)
           else (sent, peer_id # errors)))"

section \<open>Messages from this host\<close>

definition accept_game_connection ::
  "relay_env \<Rightarrow> local_game_id \<Rightarrow> game_connection \<Rightarrow> relay \<Rightarrow> relay \<times> effect list"
where
  "accept_game_connection env game_id connection s =
     (case im_map (games s) game_id of
        Some (Remote game) \<Rightarrow>
          (let remote_game_id = rgame_remote_game_id game;
               peer_id = rgame_peer_id game in
           case peers s peer_id of
             None \<Rightarrow> (s, [])
           | Some peer \<Rightarrow>
               (let connection_id = next_connection_id peer;
                    peer = peer\<lparr>next_connection_id := ConnectionId (cid_id connection_id + 1) (cid_local connection_id),
                      local_connections := (local_connections peer)(connection_id \<mapsto> \<lparr>lc_tx = gc_tx connection\<rparr>)\<rparr>;
                    s = s\<lparr>peers := (peers s)(peer_id \<mapsto> peer)\<rparr>
                in if send_ok env (peer_handle peer)
                   then (s, [SendPeer (peer_handle peer) \<lparr>inner = Some (Connect
                                \<lparr>rc_game_id = rg_u64 remote_game_id, rc_connection_id = cid_id connection_id, rc_hops = 0\<rparr>)\<rparr>,
                             SpawnAccepted game_id connection_id connection (peer_handle peer)])
                   else (s, [])))
      | _ \<Rightarrow> (s, []))"

definition add_game_connection ::
  "relay_env \<Rightarrow> peer_id \<Rightarrow> connection_id \<Rightarrow> local_game_id \<Rightarrow> game_connection_handle \<Rightarrow> relay \<Rightarrow> relay \<times> effect list"
where
  "add_game_connection env from connection_id game_id tx s =
     (case peers s from of
        None \<Rightarrow> (s, [])
      | Some peer \<Rightarrow>
          (let peer = peer\<lparr>local_connections := (local_connections peer)(connection_id \<mapsto> \<lparr>lc_tx = tx\<rparr>)\<rparr>;
               s = s\<lparr>peers := (peers s)(from \<mapsto> peer)\<rparr>
           in if send_ok env (peer_handle peer)
              then (s, [SendPeer (peer_handle peer) \<lparr>inner = Some (Data
                          \<lparr>rd_connection_id = cid_id connection_id, rd_connection_local = cid_local connection_id,
                           rd_data = []\<rparr>)\<rparr>])
              else (remove_peer env from s, [])))"

definition add_peer :: "peer_id \<Rightarrow> relay_connection_handle \<Rightarrow> relay \<Rightarrow> relay" where
  "add_peer peer_id handle s = s\<lparr>peers := (peers s)(peer_id \<mapsto> Peer_new handle)\<rparr>"

definition add_local_game ::
  "relay_env \<Rightarrow> socket_addr \<Rightarrow> u16 \<Rightarrow> bytes \<Rightarrow> relay \<Rightarrow> relay \<times> effect list"
where
  "add_local_game env from port motd s =
     (let addr = set_port from port in
      if addr_port from = discovery_port s \<and> port \<in> listen_ports s then (s, [])
      else
        (let (game_id, s) =
               (case local_games s addr of
                  Some game_id \<Rightarrow> (game_id, s)
                | None \<Rightarrow>
                    (let (game_id, gs) = Id_Map.add LocalGameId (Local \<lparr>lgame_addr = addr\<rparr>) (games s)
                     in (game_id, s\<lparr>games := gs, local_games := (local_games s)(addr \<mapsto> game_id)\<rparr>)));
             m = \<lparr>inner = Some (Game \<lparr>rgm_id = lg_u64 game_id, rgm_motd = motd, rgm_hops = 0\<rparr>)\<rparr>;
             (sent, errors) = send_each env m (peers s) (iter_peers env (peers s))
         in (remove_peers env errors s, sent)))"

definition remove_game_listener :: "relay_env \<Rightarrow> local_game_id \<Rightarrow> relay \<Rightarrow> relay \<times> effect list" where
  "remove_game_listener env game_id s =
     (case im_map (games s) game_id of
        Some (Remote g) \<Rightarrow>
          (case rgame_listener g of
             None \<Rightarrow> (s, [])
           | Some listener \<Rightarrow>
               (if keepalive_ok env (rgl_handle listener) then (s, [Keepalive (rgl_handle listener)])
                else (s\<lparr>listen_ports := listen_ports s - {addr_port (rgl_addr listener)},
                        games := (games s)\<lparr>im_map := (im_map (games s))(game_id \<mapsto> Remote (g\<lparr>rgame_listener := None\<rparr>))\<rparr>\<rparr>,
                      [])))
      | _ \<Rightarrow> (s, []))"

section \<open>Game advertisements from a peer\<close>

text \<open>
  The two blocks of \<open>add_game\<close> on the game's listener: a listener that is gone is forgotten, and
  where there is none a new one is started.
\<close>

definition check_listener ::
  "relay_env \<Rightarrow> remote_game \<Rightarrow> u16 set \<Rightarrow> remote_game \<times> u16 set \<times> effect list"
where
  "check_listener env g ports =
     (case rgame_listener g of
        Some listener \<Rightarrow>
          (if keepalive_ok env (rgl_handle listener) then (g, ports, [Keepalive (rgl_handle listener)])
           else (g\<lparr>rgame_listener := None\<rparr>, ports - {addr_port (rgl_addr listener)}, []))
      | None \<Rightarrow> (g, ports, []))"

definition start_listener ::
  "relay_env \<Rightarrow> local_game_id \<Rightarrow> remote_game \<Rightarrow> u16 set \<Rightarrow> remote_game \<times> u16 set \<times> effect list"
where
  "start_listener env local_game_id g ports =
     (case rgame_listener g of
        Some _ \<Rightarrow> (g, ports, [])
      | None \<Rightarrow>
          (case new_listener env of
             Inr listener \<Rightarrow>
               (g\<lparr>rgame_listener := Some \<lparr>rgl_handle = gl_keepalive listener, rgl_addr = gl_local_addr listener\<rparr>\<rparr>,
                insert (addr_port (gl_local_addr listener)) ports,
                [SpawnListener local_game_id listener])
           | Inl _ \<Rightarrow> (g\<lparr>rgame_listener := None\<rparr>, ports, [])))"

text \<open>The last block of \<open>add_game\<close>: the game is advertised on the LAN of this host.\<close>

definition advertise :: "relay_env \<Rightarrow> remote_game \<Rightarrow> bytes \<Rightarrow> effect list option" where
  "advertise env g motd =
     (case rgame_listener g of
        None \<Rightarrow> Some []
      | Some listener \<Rightarrow>
          map_option (\<lambda>(_, datagrams). map SendDatagram datagrams)
            (DiscoverySender_send (slice_mut env) (udp_send env)
               \<lparr>dp_port = addr_port (rgl_addr listener), dp_motd = motd\<rparr>))"

definition add_game ::
  "relay_env \<Rightarrow> peer_id \<Rightarrow> relay_game \<Rightarrow> relay \<Rightarrow> (relay \<times> effect list \<times> relayed_game option) option"
where
  "add_game env from game_message s =
     (case peers s from of
        None \<Rightarrow> Some (s, [], None)
      | Some peer \<Rightarrow>
          (let remote_game_id = RemoteGameId (rgm_id game_message);
               (relayed_game_entry, s) =
                 (case peer_games peer remote_game_id of
                    Some entry \<Rightarrow> (entry, s)
                  | None \<Rightarrow>
                      (let (local_game_id, gs) = next_id LocalGameId (games s);
                           entry = \<lparr>rg_local_game_id = local_game_id\<rparr>;
                           peer = peer\<lparr>peer_games := (peer_games peer)(remote_game_id \<mapsto> entry)\<rparr>
                       in (entry, s\<lparr>games := gs, peers := (peers s)(from \<mapsto> peer)\<rparr>)));
               local_game_id = rg_local_game_id relayed_game_entry;
               game = (case im_map (games s) local_game_id of
                         Some game \<Rightarrow> game
                       | None \<Rightarrow> Remote \<lparr>rgame_peer_id = from, rgame_remote_game_id = remote_game_id,
                                          rgame_listener = None\<rparr>)
           in case game of
                Local _ \<Rightarrow> Some (s, [], None)
              | Remote remote_game \<Rightarrow>
                  (let (remote_game, ports, kept) = check_listener env remote_game (listen_ports s);
                       (remote_game, ports, started) = start_listener env local_game_id remote_game ports;
                       s = s\<lparr>games := (games s)\<lparr>im_map := (im_map (games s))(local_game_id \<mapsto> Remote remote_game)\<rparr>,
                             listen_ports := ports\<rparr>
                   in case advertise env remote_game (rgm_motd game_message) of
                        None \<Rightarrow> None
                      | Some advertised \<Rightarrow> Some (s, kept @ started @ advertised, Some relayed_game_entry))))"

definition forward_game ::
  "relay_env \<Rightarrow> peer_id \<Rightarrow> local_game_id \<Rightarrow> relay_game \<Rightarrow> relay \<Rightarrow> relay \<times> effect list"
where
  "forward_game env from game_id game_message s =
     (if MAX_FORWARDING_HOPS \<le> rgm_hops game_message then (s, [])
      else
        (let m = \<lparr>inner = Some (Game \<lparr>rgm_id = lg_u64 game_id, rgm_motd = rgm_motd game_message,
                                        rgm_hops = rgm_hops game_message + 1\<rparr>)\<rparr>;
             (sent, errors) = send_each env m (peers s) (filter (\<lambda>peer_id. peer_id \<noteq> from) (iter_peers env (peers s)))
         in (remove_peers env errors s, sent)))"

definition handle_game :: "relay_env \<Rightarrow> peer_id \<Rightarrow> relay_game \<Rightarrow> relay \<Rightarrow> (relay \<times> effect list) option" where
  "handle_game env from game_message s =
     (case add_game env from game_message s of
        None \<Rightarrow> None
      | Some (s, added, None) \<Rightarrow> Some (s, added)
      | Some (s, added, Some relayed_game_entry) \<Rightarrow>
          (let (s, forwarded) = forward_game env from (rg_local_game_id relayed_game_entry) game_message s
           in Some (s, added @ forwarded)))"

section \<open>Connections through this relay\<close>

definition connect_local ::
  "peer_id \<Rightarrow> local_game_id \<Rightarrow> connection_id \<Rightarrow> socket_addr \<Rightarrow> relay \<Rightarrow> relay \<times> effect list"
where
  "connect_local from game_id connection_id addr s =
     (case peers s from of
        None \<Rightarrow> (s, [])
      | Some peer \<Rightarrow> (s, [SpawnConnect from game_id connection_id addr (peer_handle peer)]))"

text \<open>The \<open>unreachable!()\<close> of \<open>forward_connect\<close> is the result \<open>None\<close>.\<close>

definition forward_connect ::
  "relay_env \<Rightarrow> peer_id \<Rightarrow> peer_id \<Rightarrow> remote_game_id \<Rightarrow> relay_connect \<Rightarrow> relay \<Rightarrow> (relay \<times> effect list) option"
where
  "forward_connect env from to to_game_id connect_message s =
     (if MAX_FORWARDING_HOPS \<le> rc_hops connect_message then Some (s, [])
      else
        (case peers s from of
           None \<Rightarrow> Some (s, [])
         | Some from_peer \<Rightarrow>
             (let from_connection_id = ConnectionId (rc_connection_id connect_message) False in
              if relayed_connections from_peer from_connection_id \<noteq> None then Some (s, [])
              else
                (case peers s to of
                   None \<Rightarrow> Some (s, [])
                 | Some to_peer \<Rightarrow>
                     (let to_connection_id = next_connection_id to_peer;
                          to_peer = to_peer\<lparr>
                            next_connection_id := ConnectionId (cid_id to_connection_id + 1) (cid_local to_connection_id),
                            relayed_connections := (relayed_connections to_peer)(to_connection_id \<mapsto>
                              \<lparr>rcn_peer = from, rcn_peer_connection_id = from_connection_id\<rparr>)\<rparr>;
                          s = s\<lparr>peers := (peers s)(to \<mapsto> to_peer)\<rparr>
                      in if send_ok env (peer_handle to_peer)
                         then
                           (case peers s from of
                              None \<Rightarrow> None
                            | Some from_peer \<Rightarrow>
                                Some (s\<lparr>peers := (peers s)(from \<mapsto> from_peer\<lparr>
                                        relayed_connections := (relayed_connections from_peer)(from_connection_id \<mapsto>
                                          \<lparr>rcn_peer = to, rcn_peer_connection_id = to_connection_id\<rparr>)\<rparr>)\<rparr>,
                                      [SendPeer (peer_handle to_peer) \<lparr>inner = Some (Connect
                                         \<lparr>rc_game_id = rg_u64 to_game_id, rc_connection_id = cid_id to_connection_id,
                                          rc_hops = rc_hops connect_message + 1\<rparr>)\<rparr>]))
                         else Some (remove_peer env to s, []))))))"

definition handle_connect :: "relay_env \<Rightarrow> peer_id \<Rightarrow> relay_connect \<Rightarrow> relay \<Rightarrow> (relay \<times> effect list) option" where
  "handle_connect env from connect_message s =
     (let game_id = LocalGameId (rc_game_id connect_message);
          connection_id = ConnectionId (rc_connection_id connect_message) False in
      case im_map (games s) game_id of
        Some (Local g) \<Rightarrow> Some (connect_local from game_id connection_id (lgame_addr g) s)
      | Some (Remote g) \<Rightarrow>
          forward_connect env from (rgame_peer_id g) (rgame_remote_game_id g) connect_message s
      | None \<Rightarrow> Some (s, []))"

definition handle_data :: "relay_env \<Rightarrow> peer_id \<Rightarrow> relay_data \<Rightarrow> relay \<Rightarrow> relay \<times> effect list" where
  "handle_data env from data_message s =
     (let from_connection_id = ConnectionId (rd_connection_id data_message) (rd_connection_local data_message) in
      case peers s from of
        None \<Rightarrow> (s, [])
      | Some from_peer \<Rightarrow>
          (case local_connections from_peer from_connection_id of
             Some local_connection \<Rightarrow>
               (if game_send_ok env (lc_tx local_connection)
                then (s, [SendGame (lc_tx local_connection) (rd_data data_message)])
                else (s\<lparr>peers := (peers s)(from \<mapsto> from_peer\<lparr>
                        local_connections := (local_connections from_peer)(from_connection_id := None)\<rparr>)\<rparr>, []))
           | None \<Rightarrow>
               (case relayed_connections from_peer from_connection_id of
                  None \<Rightarrow> (s, [])
                | Some from_connection \<Rightarrow>
                    (let to = rcn_peer from_connection;
                         to_connection_id = rcn_peer_connection_id from_connection in
                     case peers s to of
                       None \<Rightarrow> (s, [])
                     | Some to_peer \<Rightarrow>
                         (if send_ok env (peer_handle to_peer)
                          then (s, [SendPeer (peer_handle to_peer) \<lparr>inner = Some (Data
                                     \<lparr>rd_connection_id = cid_id to_connection_id,
                                      rd_connection_local = cid_local to_connection_id,
                                      rd_data = rd_data data_message\<rparr>)\<rparr>])
                          else (remove_peer env to s, []))))))"

definition handle_close_connection :: "peer_id \<Rightarrow> relay_close_connection \<Rightarrow> relay \<Rightarrow> relay" where
  "handle_close_connection from close_connection_message s =
     (let connection_id = ConnectionId (rcc_connection_id close_connection_message)
                            (rcc_connection_local close_connection_message) in
      case peers s from of
        None \<Rightarrow> s
      | Some from_peer \<Rightarrow>
          (let removed = relayed_connections from_peer connection_id;
               s = s\<lparr>peers := (peers s)(from \<mapsto> from_peer\<lparr>
                       local_connections := (local_connections from_peer)(connection_id := None),
                       relayed_connections := (relayed_connections from_peer)(connection_id := None)\<rparr>)\<rparr>
           in case removed of
                None \<Rightarrow> s
              | Some relayed_connection \<Rightarrow>
                  (case peers s (rcn_peer relayed_connection) of
                     None \<Rightarrow> s
                   | Some to_peer \<Rightarrow>
                       s\<lparr>peers := (peers s)(rcn_peer relayed_connection \<mapsto> to_peer\<lparr>
                         relayed_connections := (relayed_connections to_peer)
                           (rcn_peer_connection_id relayed_connection := None)\<rparr>)\<rparr>)))"

section \<open>The message loop\<close>

definition handle_peer_message :: "relay_env \<Rightarrow> peer_id \<Rightarrow> relay_message \<Rightarrow> relay \<Rightarrow> (relay \<times> effect list) option" where
  "handle_peer_message env from m s =
     (case inner m of
        None \<Rightarrow> Some (s, [])
      | Some (Game game_message) \<Rightarrow> handle_game env from game_message s
      | Some (Connect connect_message) \<Rightarrow> handle_connect env from connect_message s
      | Some (Data data_message) \<Rightarrow> Some (handle_data env from data_message s)
      | Some (CloseConnection close_connection_message) \<Rightarrow>
          Some (handle_close_connection from close_connection_message s, []))"

fun handle_message :: "relay_env \<times> message \<Rightarrow> relay \<Rightarrow> (relay \<times> effect list) option" where
  "handle_message (env, AcceptGameConnection game_id connection) s =
     Some (accept_game_connection env game_id connection s)"
| "handle_message (env, AddGameConnection peer_id connection_id game_id tx) s =
     Some (add_game_connection env peer_id connection_id game_id tx s)"
| "handle_message (env, AddPeer peer_id handle) s = Some (add_peer peer_id handle s, [])"
| "handle_message (env, AddLocalGame from port motd) s = Some (add_local_game env from port motd s)"
| "handle_message (env, Recv from m) s = handle_peer_message env from m s"
| "handle_message (env, RemoveGameListener game_id) s = Some (remove_game_listener env game_id s)"
| "handle_message (env, RemovePeer peer_id) s = Some (remove_peer env peer_id s, [])"

text \<open>\<open>Relay::run\<close>, over the messages received, each with the environment it is handled in.\<close>

definition run :: "(relay_env \<times> message) list \<Rightarrow> relay \<Rightarrow> (relay \<times> effect list) option" where
  "run = run_loop handle_message"

lemmas [relay_defs] =
  accept_game_connection_def add_game_connection_def add_peer_def add_local_game_def
  remove_game_listener_def handle_game_def connect_local_def forward_connect_def
  handle_connect_def handle_data_def handle_close_connection_def handle_peer_message_def

end
