(* ===== verification/Relay_Inv.thy ===== *)
theory Relay_Inv
  imports Relay_Ops
begin

text \<open>
  The invariant of the relay's state and its preservation by every handler. A peer's entry for a
  game leads to a game of that peer and that remote id; the table of local games is the inverse of
  the local games in the identifier map; and all identifiers in use were handed out by the counter.
  A second invariant, on ports, says that the ports to be ignored in discovery are exactly those of the
  listeners of the games, no two of which share a port. It is kept as long as the system gives new
  listeners ports that are not recorded, which it does not promise.
\<close>

section \<open>The invariant\<close>

fun listener_port :: "game \<Rightarrow> u16 option" where
  "listener_port (Local _) = None"
| "listener_port (Remote g) = map_option (\<lambda>l. addr_port (rgl_addr l)) (rgame_listener g)"

text \<open>The listener port of the game with a given id, where it has one.\<close>

definition port_of :: "(local_game_id \<rightharpoonup> game) \<Rightarrow> local_game_id \<rightharpoonup> u16" where
  "port_of m i = Option.bind (m i) listener_port"

definition wf_finite :: "relay \<Rightarrow> bool" where
  "wf_finite s \<longleftrightarrow> finite (dom (peers s)) \<and> (\<forall>peer \<in> ran (peers s). finite (dom (peer_games peer)))"

definition wf_ids :: "relay \<Rightarrow> bool" where
  "wf_ids s \<longleftrightarrow> game_ids.sound (games s)"

definition owns :: "peer_id \<Rightarrow> remote_game_id \<Rightarrow> game \<Rightarrow> bool" where
  "owns p r g \<longleftrightarrow> (\<exists>l. g = Remote \<lparr>rgame_peer_id = p, rgame_remote_game_id = r, rgame_listener = l\<rparr>)"

definition wf_peer_games :: "relay \<Rightarrow> bool" where
  "wf_peer_games s \<longleftrightarrow>
     (\<forall>p peer r e. peers s p = Some peer \<longrightarrow> peer_games peer r = Some e \<longrightarrow>
        (\<exists>g. im_map (games s) (rg_local_game_id e) = Some g \<and> owns p r g))"

definition wf_local_games :: "relay \<Rightarrow> bool" where
  "wf_local_games s \<longleftrightarrow>
     (\<forall>a i. local_games s a = Some i \<longleftrightarrow> im_map (games s) i = Some (Local \<lparr>lgame_addr = a\<rparr>))"

text \<open>\<open>P\<close> is the set of the ports that \<open>f\<close> assigns, each to one id only.\<close>

definition ports_ok :: "u16 set \<Rightarrow> (local_game_id \<rightharpoonup> u16) \<Rightarrow> bool" where
  "ports_ok P f \<longleftrightarrow> (\<forall>q. q \<in> P \<longleftrightarrow> (\<exists>i. f i = Some q)) \<and> (\<forall>i j q. f i = Some q \<longrightarrow> f j = Some q \<longrightarrow> i = j)"

definition wf_ports :: "relay \<Rightarrow> bool" where
  "wf_ports s \<longleftrightarrow> ports_ok (listen_ports s) (port_of (im_map (games s)))"

text \<open>No connection id the relay hands out has the flag \<open>local\<close> set.\<close>

definition wf_flags :: "relay \<Rightarrow> bool" where
  "wf_flags s \<longleftrightarrow> (\<forall>p peer. peers s p = Some peer \<longrightarrow> \<not> cid_local (next_connection_id peer))"

definition relay_wf :: "relay \<Rightarrow> bool" where
  "relay_wf s \<longleftrightarrow> wf_finite s \<and> wf_ids s \<and> wf_peer_games s \<and> wf_local_games s \<and> wf_flags s"

lemma relay_wfI [intro?]:
  "wf_finite s \<Longrightarrow> wf_ids s \<Longrightarrow> wf_peer_games s \<Longrightarrow> wf_local_games s \<Longrightarrow> wf_flags s \<Longrightarrow> relay_wf s"
  by (simp add: relay_wf_def)

lemma relay_wfD:
  assumes "relay_wf s"
  shows "wf_finite s" "wf_ids s" "wf_peer_games s" "wf_local_games s" "wf_flags s"
  using assms by (simp_all add: relay_wf_def)

lemma wf_peer_gamesD:
  assumes "relay_wf s" "peers s p = Some peer" "peer_games peer r = Some e"
  shows "\<exists>g. im_map (games s) (rg_local_game_id e) = Some (Remote g)
    \<and> rgame_peer_id g = p \<and> rgame_remote_game_id g = r"
  using relay_wfD(3)[OF assms(1)] assms(2,3) by (fastforce simp: wf_peer_games_def owns_def)

lemmas wf_parts = wf_finite_def wf_ids_def wf_peer_games_def wf_local_games_def wf_flags_def

text \<open>
  What the environment of a step promises: hash maps are iterated completely, and buffers behave as
  documented.
\<close>

definition env_lawful :: "relay_env \<Rightarrow> bool" where
  "env_lawful env \<longleftrightarrow>
     (\<forall>m. finite (dom m) \<longrightarrow> iterates (iter_peers env m) m)
     \<and> (\<forall>p m. finite (dom m) \<longrightarrow> iterates (iter_games env p m) m)
     \<and> slice_writer (slice_mut env)"

text \<open>A listener that is bound in this environment gets a port that is not recorded.\<close>

definition fresh_port :: "relay_env \<Rightarrow> relay \<Rightarrow> bool" where
  "fresh_port env s \<longleftrightarrow>
     (\<forall>l. new_listener env = Inr l \<longrightarrow> addr_port (gl_local_addr l) \<notin> listen_ports s)"

lemma env_iter_peers: "env_lawful env \<Longrightarrow> wf_finite s \<Longrightarrow> iterates (iter_peers env (peers s)) (peers s)"
  by (simp add: env_lawful_def wf_finite_def)

lemma env_iter_games:
  "env_lawful env \<Longrightarrow> wf_finite s \<Longrightarrow> peers s p = Some peer \<Longrightarrow>
     iterates (iter_games env p (peer_games peer)) (peer_games peer)"
  by (auto simp: env_lawful_def wf_finite_def ran_def)

section \<open>Removing a peer\<close>

lemma take_games_eq:
  "take_games gs s =
     (fst (take_games gs s),
      s\<lparr>games := (games s)\<lparr>im_map := im_map (games s) |` (- rg_local_game_id ` set gs)\<rparr>\<rparr>)"
  "set (fst (take_games gs s)) = {g. \<exists>e \<in> set gs. im_map (games s) (rg_local_game_id e) = Some g}"
proof -
  have skip: "m |` (- insert k A) = m |` (- A)" if "m k = None" for m :: "local_game_id \<rightharpoonup> game" and k A
    using that by (auto simp: restrict_map_def)
  have "take_games gs s =
     (fst (take_games gs s),
      s\<lparr>games := (games s)\<lparr>im_map := im_map (games s) |` (- rg_local_game_id ` set gs)\<rparr>\<rparr>)
    \<and> set (fst (take_games gs s)) = {g. \<exists>e \<in> set gs. im_map (games s) (rg_local_game_id e) = Some g}"
  proof (induction gs arbitrary: s)
    case Nil
    then show ?case by simp
  next
    case (Cons e gs)
    let ?i = "rg_local_game_id e"
    let ?s = "s\<lparr>games := (games s)\<lparr>im_map := (im_map (games s))(?i := None)\<rparr>\<rparr>"
    show ?case
    proof (cases "im_map (games s) ?i")
      case None
      with Cons.IH[of s] skip[where k = ?i] show ?thesis by auto
    next
      case (Some g)
      obtain removed s' where tg: "take_games gs ?s = (removed, s')" by fastforce
      have s': "s' = ?s\<lparr>games := (games ?s)\<lparr>im_map := im_map (games ?s) |` (- rg_local_game_id ` set gs)\<rparr>\<rparr>"
        and rem: "set removed = {g. \<exists>e \<in> set gs. im_map (games ?s) (rg_local_game_id e) = Some g}"
        using Cons.IH[of ?s] unfolding tg fst_conv by (simp_all only: prod.inject)
      have "s' = s\<lparr>games := (games s)\<lparr>im_map := im_map (games s) |` (- rg_local_game_id ` set (e # gs))\<rparr>\<rparr>"
        unfolding s' by (intro relay.equality id_map.equality) (auto simp: restrict_map_def)
      moreover have "set (g # removed) = {g. \<exists>e' \<in> set (e # gs). im_map (games s) (rg_local_game_id e') = Some g}"
        using Some rem by (fastforce split: if_splits)
      moreover have "take_games (e # gs) s = (g # removed, s')" using Some tg by simp
      ultimately show ?thesis by simp
    qed
  qed
  then show "take_games gs s =
     (fst (take_games gs s),
      s\<lparr>games := (games s)\<lparr>im_map := im_map (games s) |` (- rg_local_game_id ` set gs)\<rparr>\<rparr>)"
    and "set (fst (take_games gs s)) = {g. \<exists>e \<in> set gs. im_map (games s) (rg_local_game_id e) = Some g}"
    by blast+
qed

lemma cleanup_eq: "cleanup_removed_game s g = s\<lparr>listen_ports := listen_ports s - set_option (listener_port g)\<rparr>"
  by (cases g) (auto split: option.split)

lemma foldl_cleanup_eq:
  "foldl cleanup_removed_game s gs = s\<lparr>listen_ports := listen_ports s - (\<Union>g \<in> set gs. set_option (listener_port g))\<rparr>"
  by (induction gs arbitrary: s) (simp_all add: cleanup_eq Diff_eq Int_assoc)

text \<open>The ids of a peer's games, and the closed form of \<open>remove_peer\<close>.\<close>

definition game_ids_of :: "peer \<Rightarrow> local_game_id set" where
  "game_ids_of peer = rg_local_game_id ` ran (peer_games peer)"

lemma set_map_filter_iterates:
  assumes "iterates ks m"
  shows "set (List.map_filter m ks) = ran m"
proof -
  have "set (List.map_filter m ks) = {y. \<exists>k \<in> set ks. m k = Some y}"
    by (force simp: List.map_filter_def)
  also have "\<dots> = ran m"
    unfolding iterates_set[OF assms] by (auto simp: ran_def)
  finally show ?thesis .
qed

lemma remove_peer_None: "peers s p = None \<Longrightarrow> remove_peer env p s = s"
  by (simp add: remove_peer_def)


definition ports_at :: "(local_game_id \<rightharpoonup> game) \<Rightarrow> local_game_id set \<Rightarrow> u16 set" where
  "ports_at m A = {q. \<exists>i \<in> A. port_of m i = Some q}"

lemma remove_peer_Some:
  assumes "peers s p = Some peer" and "iterates (iter_games env p (peer_games peer)) (peer_games peer)"
  shows "remove_peer env p s =
    s\<lparr>peers := (peers s)(p := None),
      games := (games s)\<lparr>im_map := im_map (games s) |` (- game_ids_of peer)\<rparr>,
      listen_ports := listen_ports s - ports_at (im_map (games s)) (game_ids_of peer)\<rparr>"
proof -
  let ?es = "List.map_filter (peer_games peer) (iter_games env p (peer_games peer))"
  let ?s = "s\<lparr>peers := (peers s)(p := None)\<rparr>"
  have ids: "rg_local_game_id ` set ?es = game_ids_of peer"
    by (simp add: game_ids_of_def set_map_filter_iterates[OF assms(2)])
  have "(\<Union>g \<in> set (fst (take_games ?es ?s)). set_option (listener_port g))
      = ports_at (im_map (games s)) (rg_local_game_id ` set ?es)"
    unfolding take_games_eq(2) ports_at_def port_of_def by (auto simp: bind_eq_Some_conv)
  then show ?thesis
    unfolding remove_peer_def assms(1) option.case Let_def
    by (subst take_games_eq(1)) (simp add: foldl_cleanup_eq ids)
qed

lemma ports_ok_restrict:
  "ports_ok P f \<Longrightarrow> ports_ok (P - {q. \<exists>i \<in> A. f i = Some q}) (f |` (- A))"
  unfolding ports_ok_def restrict_map_def by (auto split: if_splits)

lemma wf_remove_peer [wf_intros]:
  assumes wf: "relay_wf s" and env: "env_lawful env"
  shows "relay_wf (remove_peer env p s)"
proof (cases "peers s p")
  case None
  with wf show ?thesis by (simp add: remove_peer_None)
next
  case (Some peer)
  note parts = relay_wfD[OF wf, unfolded wf_parts]
  let ?m = "im_map (games s)" and ?A = "game_ids_of peer"
  have owned: "\<exists>r g. ?m i = Some g \<and> owns p r g" if "i \<in> ?A" for i
    using that parts(3) Some by (force simp: game_ids_of_def ran_def)
  have other: "rg_local_game_id e \<notin> ?A"
    if q: "peers s q = Some peer'" "q \<noteq> p" "peer_games peer' r = Some e" for q peer' r e
  proof
    assume "rg_local_game_id e \<in> ?A"
    then obtain r' g where "?m (rg_local_game_id e) = Some g" "owns p r' g" using owned by blast
    moreover obtain g' where "?m (rg_local_game_id e) = Some g'" "owns q r g'"
      using parts(3) q by blast
    ultimately show False using q(2) by (auto simp: owns_def)
  qed
  note eq = remove_peer_Some[OF Some env_iter_games[OF env relay_wfD(1)[OF wf] Some]]
  show ?thesis
  proof
    show "wf_finite (remove_peer env p s)"
      using parts(1) by (auto simp: eq wf_finite_def ran_def)
    show "wf_ids (remove_peer env p s)"
      using parts(2) by (auto simp: eq wf_ids_def game_ids.sound_def keys_below_def)
    show "wf_peer_games (remove_peer env p s)"
      using parts(3) other by (fastforce simp: eq wf_peer_games_def restrict_map_def)
    show "wf_local_games (remove_peer env p s)"
      using parts(4) owned by (fastforce simp: eq wf_local_games_def restrict_map_def owns_def)
    show "wf_flags (remove_peer env p s)"
      using parts(5) by (simp add: eq wf_flags_def)
  qed
qed

lemma wf_remove_peers [wf_intros]:
  "relay_wf s \<Longrightarrow> env_lawful env \<Longrightarrow> relay_wf (remove_peers env ps s)"
  unfolding remove_peers_def by (induction ps arbitrary: s) (auto intro: wf_remove_peer)

lemma wf_ports_remove_peer:
  assumes "wf_ports s" "wf_finite s" "env_lawful env"
  shows "wf_ports (remove_peer env p s)"
proof (cases "peers s p")
  case (Some peer)
  have "port_of (im_map (games s) |` (- game_ids_of peer)) = port_of (im_map (games s)) |` (- game_ids_of peer)"
    by (auto simp: port_of_def restrict_map_def)
  with ports_ok_restrict[OF assms(1)[unfolded wf_ports_def]] show ?thesis
    by (simp add: remove_peer_Some[OF Some env_iter_games[OF assms(3,2) Some]] wf_ports_def ports_at_def)
qed (simp add: remove_peer_None assms(1))

lemma wf_ports_remove_peers:
  "wf_ports s \<Longrightarrow> relay_wf s \<Longrightarrow> env_lawful env \<Longrightarrow> wf_ports (remove_peers env ps s)"
  unfolding remove_peers_def
  by (induction ps arbitrary: s) (auto intro: wf_remove_peer wf_ports_remove_peer relay_wfD)

lemma remove_peer_frame [relay_frame]:
  "next_key (games (remove_peer env p s)) = next_key (games s)"
  "discovery_port (remove_peer env p s) = discovery_port s"
  "local_games (remove_peer env p s) = local_games s"
proof -
  have "games (foldl cleanup_removed_game s gs) = games s" for gs s
    by (simp add: foldl_cleanup_eq)
  moreover have "next_key (games (snd (take_games gs s))) = next_key (games s)" for gs s
    by (subst take_games_eq(1)) simp
  moreover have "discovery_port (snd (take_games gs s)) = discovery_port s"
    "local_games (snd (take_games gs s)) = local_games s" for gs s
    by (subst take_games_eq(1), simp)+
  ultimately show "next_key (games (remove_peer env p s)) = next_key (games s)"
    "discovery_port (remove_peer env p s) = discovery_port s"
    "local_games (remove_peer env p s) = local_games s"
    by (simp_all add: remove_peer_def foldl_cleanup_eq split_beta Let_def split: option.split)
qed

lemma remove_peers_frame [relay_frame]:
  "next_key (games (remove_peers env ps s)) = next_key (games s)"
  "discovery_port (remove_peers env ps s) = discovery_port s"
  "local_games (remove_peers env ps s) = local_games s"
  unfolding remove_peers_def by (induction ps arbitrary: s) (simp_all add: relay_frame)

section \<open>Updating one peer\<close>

text \<open>Handlers that only touch a peer's connections keep the invariant.\<close>

lemma wf_update_peer [wf_intros]:
  assumes "relay_wf s" "peers s p = Some peer" "peer_games peer' = peer_games peer"
    and "cid_local (next_connection_id peer') = cid_local (next_connection_id peer)"
  shows "relay_wf (s\<lparr>peers := (peers s)(p \<mapsto> peer')\<rparr>)"
proof -
  note parts = relay_wfD[OF assms(1), unfolded wf_parts]
  have "wf_finite (s\<lparr>peers := (peers s)(p \<mapsto> peer')\<rparr>)"
    using parts(1) assms(2,3) by (auto simp: wf_finite_def ran_def)
  moreover have "wf_peer_games (s\<lparr>peers := (peers s)(p \<mapsto> peer')\<rparr>)"
    using parts(3) assms(2,3) by (auto simp: wf_peer_games_def)
  moreover have "wf_flags (s\<lparr>peers := (peers s)(p \<mapsto> peer')\<rparr>)"
    using parts(5) assms(2,4) by (auto simp: wf_flags_def)
  ultimately show ?thesis
    using parts(2,4) by (simp add: relay_wf_def wf_ids_def wf_local_games_def)
qed

lemma wf_add_peer [wf_intros]:
  assumes "relay_wf s"
  shows "relay_wf (add_peer p h s)"
proof -
  note parts = relay_wfD[OF assms, unfolded wf_parts]
  have "wf_finite (add_peer p h s)"
    using parts(1) by (auto simp: wf_finite_def ran_def add_peer_def Peer_new_def)
  moreover have "wf_peer_games (add_peer p h s)"
    using parts(3) by (auto simp: wf_peer_games_def add_peer_def Peer_new_def)
  moreover have "wf_flags (add_peer p h s)"
    using parts(5) by (auto simp: wf_flags_def add_peer_def Peer_new_def connection_id_default_def)
  ultimately show ?thesis
    using parts(2,4) by (simp add: relay_wf_def wf_ids_def wf_local_games_def add_peer_def)
qed

section \<open>Updating one game\<close>

lemma ports_ok_del: "ports_ok P f \<Longrightarrow> f i = Some q \<Longrightarrow> ports_ok (P - {q}) (f(i := None))"
  unfolding ports_ok_def by (auto split: if_splits) (metis option.inject)

lemma ports_ok_add: "ports_ok P f \<Longrightarrow> f i = None \<Longrightarrow> q \<notin> P \<Longrightarrow> ports_ok (insert q P) (f(i \<mapsto> q))"
  unfolding ports_ok_def by (auto split: if_splits) (metis option.distinct(1))

lemma port_of_upd: "port_of (m(i \<mapsto> g)) = (port_of m)(i := listener_port g)"
  by (auto simp: port_of_def)

lemma ports_ok_fun_upd: "f i = x \<Longrightarrow> ports_ok P (f(i := x)) = ports_ok P f"
  by (simp add: fun_upd_idem)

lemma owns_Remote [simp]: "owns p r (Remote g) \<longleftrightarrow> rgame_peer_id g = p \<and> rgame_remote_game_id g = r"
  by (cases g) (auto simp: owns_def)

lemma owns_Local [simp]: "\<not> owns p r (Local g)"
  by (simp add: owns_def)

definition same_owner :: "remote_game \<Rightarrow> remote_game \<Rightarrow> bool" where
  "same_owner g h \<longleftrightarrow> rgame_peer_id g = rgame_peer_id h \<and> rgame_remote_game_id g = rgame_remote_game_id h"

lemma wf_update_remote [wf_intros]:
  assumes wf: "relay_wf s" and old: "im_map (games s) i = Some (Remote g)" and "same_owner g h"
  shows "relay_wf (s\<lparr>games := (games s)\<lparr>im_map := (im_map (games s))(i \<mapsto> Remote h)\<rparr>, listen_ports := P\<rparr>)"
    (is "relay_wf ?s")
proof
  note parts = relay_wfD[OF wf, unfolded wf_parts]
  show "wf_finite ?s" using parts(1) by (simp add: wf_finite_def)
  show "wf_ids ?s"
    using parts(2) old by (auto simp: wf_ids_def game_ids.sound_def keys_below_def)
  have "\<exists>g'. ((im_map (games s))(i \<mapsto> Remote h)) (rg_local_game_id e) = Some g' \<and> owns p r g'"
    if "peers s p = Some peer" "peer_games peer r = Some e" for p peer r e
    using parts(3)[rule_format, OF that] old assms(3) by (auto simp: same_owner_def)
  then show "wf_peer_games ?s" by (auto simp: wf_peer_games_def)
  show "wf_local_games ?s" using parts(4) old by (auto simp: wf_local_games_def)
  show "wf_flags ?s" using parts(5) by (simp add: wf_flags_def)
qed

lemma next_game_id_unused:
  assumes "relay_wf s" "keys_left (games s) (Suc n)"
  shows "im_map (games s) (LocalGameId (next_key (games s))) = None"
  using game_ids.sound_new[OF relay_wfD(2)[OF assms(1), unfolded wf_ids_def] assms(2)] by simp

lemma wf_new_remote [wf_intros]:
  assumes wf: "relay_wf s" and room: "keys_left (games s) (Suc n)"
    and peer: "peers s p = Some peer" "peer_games peer r = None"
    and g: "rgame_peer_id g = p" "rgame_remote_game_id g = r"
  shows "relay_wf (s\<lparr>games := \<lparr>im_map = (im_map (games s))(LocalGameId (next_key (games s)) \<mapsto> Remote g),
                             next_key = next_key (games s) + 1\<rparr>,
      peers := (peers s)(p \<mapsto> peer\<lparr>peer_games := (peer_games peer)(r \<mapsto> \<lparr>rg_local_game_id = LocalGameId (next_key (games s))\<rparr>)\<rparr>),
      listen_ports := P\<rparr>)"
    (is "relay_wf ?s")
proof
  let ?i = "LocalGameId (next_key (games s))"
  note parts = relay_wfD[OF wf, unfolded wf_parts]
  note unused = next_game_id_unused[OF wf room]
  show "wf_finite ?s" using parts(1) peer(1) by (auto simp: wf_finite_def ran_def)
  have "game_ids.sound (snd (Id_Map.add LocalGameId (Remote g) (games s)))"
    using parts(2) room by (rule game_ids.sound_store)
  then show "wf_ids ?s" by (simp add: wf_ids_def game_ids.sound_def keys_below_def)
  have "rg_local_game_id e \<noteq> ?i" if "peers s q = Some peer'" "peer_games peer' t = Some e" for q peer' t e
    using parts(3)[rule_format, OF that] unused by auto
  with parts(3) peer g show "wf_peer_games ?s" by (auto simp: wf_peer_games_def)
  show "wf_local_games ?s" using parts(4) unused by (auto simp: wf_local_games_def)
  show "wf_flags ?s" using parts(5) peer(1) by (auto simp: wf_flags_def)
qed

lemma wf_new_local [wf_intros]:
  assumes wf: "relay_wf s" and room: "keys_left (games s) (Suc n)" and "local_games s a = None"
  shows "relay_wf (s\<lparr>games := snd (Id_Map.add LocalGameId (Local \<lparr>lgame_addr = a\<rparr>) (games s)),
      local_games := (local_games s)(a \<mapsto> LocalGameId (next_key (games s)))\<rparr>)"
    (is "relay_wf ?s")
proof
  let ?i = "LocalGameId (next_key (games s))"
  note parts = relay_wfD[OF wf, unfolded wf_parts]
  note unused = next_game_id_unused[OF wf room]
  show "wf_finite ?s" using parts(1) by (simp add: wf_finite_def)
  have "game_ids.sound (snd (Id_Map.add LocalGameId (Local \<lparr>lgame_addr = a\<rparr>) (games s)))"
    using parts(2) room by (rule game_ids.sound_store)
  then show "wf_ids ?s" by (simp add: wf_ids_def)
  have "rg_local_game_id e \<noteq> ?i" if "peers s q = Some peer'" "peer_games peer' t = Some e" for q peer' t e
    using parts(3)[rule_format, OF that] unused by auto
  with parts(3) show "wf_peer_games ?s" by (auto simp: wf_peer_games_def)
  have "im_map (games s) i \<noteq> Some (Local \<lparr>lgame_addr = a\<rparr>)" for i
    using parts(4) assms(3) by (metis option.distinct(1))
  with parts(4) unused assms(3) show "wf_local_games ?s" by (auto simp: wf_local_games_def)
  show "wf_flags ?s" using parts(5) by (simp add: wf_flags_def)
qed

text \<open>Ports are kept by what leaves the games' listeners alone.\<close>

lemma wf_ports_peers [simp]: "wf_ports (s\<lparr>peers := ps\<rparr>) = wf_ports s"
  by (simp add: wf_ports_def)

lemma wf_ports_update:
  "wf_ports (s\<lparr>games := G, listen_ports := P\<rparr>) = ports_ok P (port_of (im_map G))"
  "wf_ports (s\<lparr>games := G, peers := ps, listen_ports := P\<rparr>) = ports_ok P (port_of (im_map G))"
  by (simp_all add: wf_ports_def)

lemma wf_ports_new_local:
  assumes "relay_wf s" "keys_left (games s) (Suc n)" "wf_ports s"
  shows "wf_ports (s\<lparr>games := snd (Id_Map.add LocalGameId (Local \<lparr>lgame_addr = a\<rparr>) (games s)), local_games := L\<rparr>)"
proof -
  have "port_of (im_map (games s)) (LocalGameId (next_key (games s))) = None"
    using next_game_id_unused[OF assms(1,2)] by (simp add: port_of_def)
  with assms(3) show ?thesis by (simp add: wf_ports_def port_of_upd ports_ok_fun_upd)
qed

section \<open>The listener of a game\<close>

lemma refresh_owner:
  "check_listener env g P = (g1, P1, kept) \<Longrightarrow> same_owner g g1"
  "start_listener env k g P = (g1, P1, kept) \<Longrightarrow> same_owner g g1"
  by (auto simp: check_listener_def start_listener_def same_owner_def split: option.splits if_splits sum.splits)

lemma check_listener_ok:
  assumes "ports_ok P (f(i := listener_port (Remote g)))" "check_listener env g P = (g1, P1, eff)"
  shows "P1 \<subseteq> P" "ports_ok P1 (f(i := listener_port (Remote g1)))"
proof -
  show "P1 \<subseteq> P"
    using assms(2) by (auto simp: check_listener_def split: option.splits if_splits)
  show "ports_ok P1 (f(i := listener_port (Remote g1)))"
  proof (cases "rgame_listener g")
    case None
    with assms show ?thesis by (simp add: check_listener_def)
  next
    case (Some l)
    with assms ports_ok_del[OF assms(1), of i "addr_port (rgl_addr l)"] show ?thesis
      by (auto simp: check_listener_def split: if_splits)
  qed
qed

lemma start_listener_ok:
  assumes "ports_ok P (f(i := listener_port (Remote g)))" "start_listener env k g P = (g1, P1, eff)"
    and "\<And>l. new_listener env = Inr l \<Longrightarrow> addr_port (gl_local_addr l) \<notin> P"
  shows "ports_ok P1 (f(i := listener_port (Remote g1)))"
proof (cases "rgame_listener g")
  case (Some l)
  with assms show ?thesis by (simp add: start_listener_def)
next
  case None
  show ?thesis
  proof (cases "new_listener env")
    case (Inl e)
    with None assms(1,2) show ?thesis by (auto simp: start_listener_def)
  next
    case (Inr l)
    with None assms(1,2) ports_ok_add[OF assms(1), of i, OF _ assms(3)[OF Inr]] show ?thesis
      by (auto simp: start_listener_def)
  qed
qed

text \<open>Both blocks together, and the advertisement, as \<open>add_game\<close> runs them.\<close>

definition refresh_listener ::
  "relay_env \<Rightarrow> local_game_id \<Rightarrow> remote_game \<Rightarrow> u16 set \<Rightarrow> remote_game \<times> u16 set \<times> effect list"
where
  "refresh_listener env i g P =
     (let (g1, P1, kept) = check_listener env g P; (g2, P2, started) = start_listener env i g1 P1
      in (g2, P2, kept @ started))"

lemma refresh_listener_owner: "refresh_listener env k g P = (g2, P2, eff) \<Longrightarrow> same_owner g g2"
  by (auto simp: refresh_listener_def same_owner_def dest!: refresh_owner split: prod.splits)

lemma refresh_listener_ok:
  assumes "ports_ok P (f(i := listener_port (Remote g)))" "refresh_listener env k g P = (g2, P2, eff)"
    and "\<And>l. new_listener env = Inr l \<Longrightarrow> addr_port (gl_local_addr l) \<notin> P"
  shows "ports_ok P2 (f(i := listener_port (Remote g2)))"
proof -
  obtain g1 P1 kept started where 1: "check_listener env g P = (g1, P1, kept)"
    and 2: "start_listener env k g1 P1 = (g2, P2, started)"
    using assms(2) by (auto simp: refresh_listener_def split: prod.splits)
  note ok1 = check_listener_ok[OF assms(1) 1]
  have "addr_port (gl_local_addr l) \<notin> P1" if "new_listener env = Inr l" for l
    using assms(3)[OF that] ok1(1) by blast
  from start_listener_ok[OF ok1(2) 2 this] show ?thesis .
qed

lemma advertise_total:
  assumes "env_lawful env"
  shows "\<exists>eff. advertise env g motd = Some eff"
proof -
  have "DiscoverySender_send (slice_mut env) (udp_send env) p \<noteq> None" for p
    using assms by (auto simp: env_lawful_def send_eq split: sum.split)
  then show ?thesis
    by (auto simp: advertise_def split: option.splits)
qed

section \<open>Every handler keeps the invariant\<close>

lemma add_game_known_peer_known_game:
  assumes "peers s from = Some peer" "peer_games peer (RemoteGameId (rgm_id gm)) = Some e"
    and "im_map (games s) (rg_local_game_id e) = Some (Remote g)"
    and "refresh_listener env (rg_local_game_id e) g (listen_ports s) = (g2, P2, eff)"
    and "advertise env g2 (rgm_motd gm) = Some adv"
  shows "add_game env from gm s = Some
    (s\<lparr>games := (games s)\<lparr>im_map := (im_map (games s))(rg_local_game_id e \<mapsto> Remote g2)\<rparr>, listen_ports := P2\<rparr>,
     eff @ adv, Some e)"
  using assms by (auto simp: add_game_def refresh_listener_def Let_def split: prod.splits)

lemma add_game_known_peer_new_game:
  assumes "peers s from = Some peer" "peer_games peer (RemoteGameId (rgm_id gm)) = None"
    and "im_map (games s) (LocalGameId (next_key (games s))) = None"
    and "refresh_listener env (LocalGameId (next_key (games s)))
      \<lparr>rgame_peer_id = from, rgame_remote_game_id = RemoteGameId (rgm_id gm), rgame_listener = None\<rparr>
      (listen_ports s) = (g2, P2, eff)"
    and "advertise env g2 (rgm_motd gm) = Some adv"
  shows "add_game env from gm s = Some
    (s\<lparr>games := \<lparr>im_map = (im_map (games s))(LocalGameId (next_key (games s)) \<mapsto> Remote g2),
                 next_key = next_key (games s) + 1\<rparr>,
       peers := (peers s)(from \<mapsto> peer\<lparr>peer_games := (peer_games peer)
         (RemoteGameId (rgm_id gm) \<mapsto> \<lparr>rg_local_game_id = LocalGameId (next_key (games s))\<rparr>)\<rparr>),
       listen_ports := P2\<rparr>,
     eff @ adv, Some \<lparr>rg_local_game_id = LocalGameId (next_key (games s))\<rparr>)"
  using assms by (cases "games s") (auto simp: add_game_def refresh_listener_def next_id_def Let_def split: prod.splits)

text \<open>One id at most is handed out by a step.\<close>

definition one_id :: "relay \<Rightarrow> relay \<Rightarrow> bool" where
  "one_id s s' \<longleftrightarrow> next_key (games s') = next_key (games s) \<or> next_key (games s') = next_key (games s) + 1"

lemma one_id_refl [simp]: "one_id s s"
  by (simp add: one_id_def)

text \<open>
  Adding an advertised game: never a panic, and for a known peer always an entry that leads to a
  game of that peer, which is the only game that changes.
\<close>

lemma add_game_ok:
  assumes wf: "relay_wf s" and env: "env_lawful env" and room: "keys_left (games s) (Suc n)"
    and peer: "peers s from = Some peer"
  obtains s' listened advertised e g P P' g' where
    "add_game env from gm s = Some (s', listened @ advertised, Some e)"
    and "relay_wf s'" "one_id s s'"
    and "peers s' = (peers s)(from \<mapsto> peer\<lparr>peer_games := (peer_games peer)(RemoteGameId (rgm_id gm) \<mapsto> e)\<rparr>)"
    and "im_map (games s') = (im_map (games s))(rg_local_game_id e \<mapsto> Remote g')"
    and "rgame_peer_id g' = from" "rgame_remote_game_id g' = RemoteGameId (rgm_id gm)"
    and "refresh_listener env (rg_local_game_id e) g P = (g', P', listened)"
    and "advertise env g' (rgm_motd gm) = Some advertised"
    and "wf_ports s \<Longrightarrow> fresh_port env s \<Longrightarrow> wf_ports s'"
proof (cases "peer_games peer (RemoteGameId (rgm_id gm))")
  case (Some e)
  then obtain g where g: "im_map (games s) (rg_local_game_id e) = Some (Remote g)"
    and own: "rgame_peer_id g = from" "rgame_remote_game_id g = RemoteGameId (rgm_id gm)"
    using wf_peer_gamesD[OF wf peer] by blast
  obtain g2 P2 eff where re: "refresh_listener env (rg_local_game_id e) g (listen_ports s) = (g2, P2, eff)"
    using prod_cases3 by blast
  obtain adv where adv: "advertise env g2 (rgm_motd gm) = Some adv"
    using advertise_total[OF env] by blast
  have "ports_ok (listen_ports s) ((port_of (im_map (games s)))(rg_local_game_id e := listener_port (Remote g)))" if "wf_ports s"
    using that g by (simp add: wf_ports_def ports_ok_fun_upd port_of_def)
  note ok = refresh_listener_ok[OF this re]
  note same_owner = refresh_listener_owner[OF re]
  from same_owner own have own: "rgame_peer_id g2 = from" "rgame_remote_game_id g2 = RemoteGameId (rgm_id gm)"
    by (simp_all add: same_owner_def)
  have same: "peer\<lparr>peer_games := (peer_games peer)(RemoteGameId (rgm_id gm) \<mapsto> e)\<rparr> = peer"
    using Some by (simp add: fun_upd_idem)
  show ?thesis
    by (rule that[OF add_game_known_peer_known_game[OF peer Some g re adv] wf_update_remote[OF wf g same_owner] _ _ _ own re adv])
      (simp_all add: one_id_def same peer fun_upd_idem wf_ports_update port_of_upd ok[unfolded listener_port.simps] fresh_port_def)
next
  case None
  let ?i = "LocalGameId (next_key (games s))"
  let ?g = "\<lparr>rgame_peer_id = from, rgame_remote_game_id = RemoteGameId (rgm_id gm), rgame_listener = None\<rparr>"
  note unused = next_game_id_unused[OF wf room]
  obtain g2 P2 eff where re: "refresh_listener env ?i ?g (listen_ports s) = (g2, P2, eff)"
    using prod_cases3 by blast
  obtain adv where adv: "advertise env g2 (rgm_motd gm) = Some adv"
    using advertise_total[OF env] by blast
  have "ports_ok (listen_ports s) ((port_of (im_map (games s)))(?i := listener_port (Remote ?g)))" if "wf_ports s"
    using that unused by (simp add: wf_ports_def ports_ok_fun_upd port_of_def)
  note ok = refresh_listener_ok[OF this re]
  from refresh_listener_owner[OF re] have own: "rgame_peer_id g2 = from" "rgame_remote_game_id g2 = RemoteGameId (rgm_id gm)"
    by (simp_all add: same_owner_def)
  note wf' = wf_new_remote[OF wf room peer None own]
  have re': "refresh_listener env (rg_local_game_id \<lparr>rg_local_game_id = ?i\<rparr>) ?g (listen_ports s) = (g2, P2, eff)"
    by (simp add: re)
  show ?thesis
    by (rule that[OF add_game_known_peer_new_game[OF peer None unused re adv] wf' _ _ _ own re' adv])
      (simp_all add: one_id_def wf_ports_update port_of_upd ok[unfolded listener_port.simps] fresh_port_def)
qed

lemma forward_game_ok:
  assumes "relay_wf s" "env_lawful env" "forward_game env from i gm s = (s', eff)"
  shows "relay_wf s'" "next_key (games s') = next_key (games s)" "wf_ports s \<Longrightarrow> wf_ports s'"
  using assms
  by (auto simp: forward_game_def Let_def relay_frame intro: wf_remove_peers wf_ports_remove_peers
      split: prod.splits if_splits)

lemma handle_game_ok:
  assumes "relay_wf s" "env_lawful env" "keys_left (games s) (Suc n)"
  shows "\<exists>s' eff. handle_game env from gm s = Some (s', eff) \<and> relay_wf s' \<and> one_id s s'
    \<and> (wf_ports s \<longrightarrow> fresh_port env s \<longrightarrow> wf_ports s')"
proof (cases "peers s from")
  case None
  with assms(1) show ?thesis by (simp add: handle_game_def add_game_def)
next
  case (Some peer)
  obtain s1 eff e where add: "add_game env from gm s = Some (s1, eff, Some e)" "relay_wf s1" "one_id s s1"
    "wf_ports s \<Longrightarrow> fresh_port env s \<Longrightarrow> wf_ports s1"
    using add_game_ok[OF assms Some] by blast
  obtain s2 eff' where fwd: "forward_game env from (rg_local_game_id e) gm s1 = (s2, eff')"
    by fastforce
  from forward_game_ok[OF add(2) assms(2) fwd] add fwd show ?thesis
    by (simp add: handle_game_def one_id_def)
qed

lemma wf_update_two_peers:
  assumes "relay_wf s" "peers s q = Some a" "peer_games a' = peer_games a"
    and "cid_local (next_connection_id a') = cid_local (next_connection_id a)"
    and "((peers s)(q \<mapsto> a')) p = Some b" "peer_games b' = peer_games b"
    and "cid_local (next_connection_id b') = cid_local (next_connection_id b)"
  shows "relay_wf (s\<lparr>peers := (peers s)(q \<mapsto> a', p \<mapsto> b')\<rparr>)"
  using wf_update_peer[OF wf_update_peer[OF assms(1-4)], of p b b'] assms(5-7) by simp

lemma forward_connect_ok:
  assumes "relay_wf s" "env_lawful env"
  shows "\<exists>s' eff. forward_connect env from to r cm s = Some (s', eff) \<and> relay_wf s'
    \<and> next_key (games s') = next_key (games s) \<and> (wf_ports s \<longrightarrow> wf_ports s')"
  using assms wf_update_peer[OF assms(1)] wf_update_two_peers[OF assms(1)]
  by (auto simp: forward_connect_def Let_def relay_frame intro!: wf_remove_peer wf_ports_remove_peer
      intro: relay_wfD(1) split: option.split)

lemma handle_connect_ok:
  assumes "relay_wf s" "env_lawful env"
  shows "\<exists>s' eff. handle_connect env from cm s = Some (s', eff) \<and> relay_wf s'
    \<and> next_key (games s') = next_key (games s) \<and> (wf_ports s \<longrightarrow> wf_ports s')"
  using forward_connect_ok[OF assms] assms(1)
  by (auto simp: handle_connect_def connect_local_def Let_def split: option.split game.split)

lemma handle_data_ok:
  assumes "relay_wf s" "env_lawful env" "handle_data env from dm s = (s', eff)"
  shows "relay_wf s'" "next_key (games s') = next_key (games s)" "wf_ports s \<Longrightarrow> wf_ports s'"
  using assms wf_update_peer[OF assms(1)] wf_remove_peer[OF assms(1,2)] relay_wfD(1)[OF assms(1)]
  by (auto simp: handle_data_def Let_def relay_frame intro: wf_ports_remove_peer split: option.splits if_splits)

lemma handle_close_connection_ok:
  assumes "relay_wf s"
  shows "relay_wf (handle_close_connection from cm s)"
    "games (handle_close_connection from cm s) = games s"
    "wf_ports (handle_close_connection from cm s) = wf_ports s"
proof -
  show "wf_ports (handle_close_connection from cm s) = wf_ports s"
    by (simp add: handle_close_connection_def Let_def split: option.split)
  show "games (handle_close_connection from cm s) = games s"
    by (simp add: handle_close_connection_def Let_def split: option.split)
  show "relay_wf (handle_close_connection from cm s)"
    using assms wf_update_peer[OF assms(1)] wf_update_two_peers[OF assms(1)]
    by (auto simp: handle_close_connection_def Let_def split: option.split)
qed

lemma accept_game_connection_ok:
  assumes "relay_wf s" "accept_game_connection env i c s = (s', eff)"
  shows "relay_wf s'" "games s' = games s" "wf_ports s' = wf_ports s"
  using assms wf_update_peer[OF assms(1)]
  by (auto simp: accept_game_connection_def Let_def split: option.splits game.splits if_splits)

lemma add_game_connection_ok:
  assumes "relay_wf s" "env_lawful env" "add_game_connection env p c i tx s = (s', eff)"
  shows "relay_wf s'" "next_key (games s') = next_key (games s)" "wf_ports s \<Longrightarrow> wf_ports s'"
  using assms wf_update_peer[OF assms(1)]
  by (auto simp: add_game_connection_def Let_def relay_frame intro!: wf_remove_peer wf_ports_remove_peer
      intro: relay_wfD(1) split: option.splits if_splits)

lemma add_local_game_ok:
  assumes "relay_wf s" "env_lawful env" "keys_left (games s) (Suc n)" "add_local_game env from port motd s = (s', eff)"
  shows "relay_wf s'" "one_id s s'" "wf_ports s \<Longrightarrow> wf_ports s'"
proof -
  note new = wf_new_local[OF assms(1,3)]
  show "wf_ports s'" if "wf_ports s"
    using assms(1,2,4) new that wf_ports_new_local[OF assms(1,3) that]
    by (auto simp: add_local_game_def Let_def split_beta intro!: wf_ports_remove_peers split: if_splits option.splits)
  show "relay_wf s'"
    using assms(1,2,4) new
    by (auto simp: add_local_game_def Let_def split_beta intro!: wf_remove_peers split: if_splits option.splits)
  show "one_id s s'"
    using assms(4)
    by (auto simp: add_local_game_def Let_def split_beta one_id_def relay_frame split: if_splits option.splits)
qed

lemma remove_game_listener_ok:
  assumes "relay_wf s" "remove_game_listener env i s = (s', eff)"
  shows "relay_wf s'" "next_key (games s') = next_key (games s)" "wf_ports s \<Longrightarrow> wf_ports s'"
proof -
  have commute: "s\<lparr>listen_ports := P, games := G\<rparr> = s\<lparr>games := G, listen_ports := P\<rparr>" for P G
    by simp
  have "relay_wf (s\<lparr>games := (games s)\<lparr>im_map := (im_map (games s))(i \<mapsto> Remote (g\<lparr>rgame_listener := None\<rparr>))\<rparr>,
      listen_ports := listen_ports s - {addr_port (rgl_addr l)}\<rparr>)"
    if "im_map (games s) i = Some (Remote g)" "rgame_listener g = Some l" for g l
    using assms(1) that by (intro wf_update_remote) (auto simp: same_owner_def)
  then show "relay_wf s'" "next_key (games s') = next_key (games s)"
    using assms by (auto simp: remove_game_listener_def commute split: option.splits game.splits if_splits)
  show "wf_ports s'" if "wf_ports s"
    using assms(2) that ports_ok_del[OF that[unfolded wf_ports_def], of i]
    by (auto simp: remove_game_listener_def wf_ports_def port_of_upd port_of_def
        split: option.splits game.splits if_splits)
qed

text \<open>
  The whole dispatcher: from a state that satisfies the invariant, a message is handled without a
  panic and the invariant holds again; so does the one on ports, if a new listener gets a port that is not
  recorded.
\<close>

definition handled :: "relay_env \<Rightarrow> relay \<Rightarrow> relay \<Rightarrow> bool" where
  "handled env s s' \<longleftrightarrow> relay_wf s' \<and> one_id s s' \<and> (wf_ports s \<longrightarrow> fresh_port env s \<longrightarrow> wf_ports s')"

lemma handled_SomeI:
  assumes "\<And>s' eff. r = (s', eff) \<Longrightarrow> handled env s s'"
  shows "\<exists>s' eff. Some r = Some (s', eff) \<and> handled env s s'"
  using assms by (cases r) simp

lemma one_id_same: "next_key (games s') = next_key (games s) \<Longrightarrow> one_id s s'"
  by (simp add: one_id_def)

lemma handle_message_ok:
  assumes wf: "relay_wf s" and env: "env_lawful env" and room: "keys_left (games s) (Suc n)"
  shows "\<exists>s' eff. handle_message (env, m) s = Some (s', eff) \<and> handled env s s'"
proof (cases m)
  case (AcceptGameConnection i c)
  show ?thesis
    unfolding AcceptGameConnection handle_message.simps
    by (rule handled_SomeI) (simp add: handled_def accept_game_connection_ok[OF wf] one_id_same)
next
  case (AddGameConnection p c i tx)
  show ?thesis
    unfolding AddGameConnection handle_message.simps
    by (rule handled_SomeI) (simp add: handled_def add_game_connection_ok[OF wf env] one_id_same)
next
  case (AddPeer p h)
  then show ?thesis using wf_add_peer[OF wf] by (simp add: handled_def one_id_def add_peer_def)
next
  case (AddLocalGame a port motd)
  show ?thesis
    unfolding AddLocalGame handle_message.simps
    by (rule handled_SomeI) (simp add: handled_def add_local_game_ok[OF wf env room])
next
  case (Recv p rm)
  note dispatch = handle_peer_message_def
  show ?thesis
  proof (cases "inner rm")
    case None
    with Recv wf show ?thesis by (simp add: dispatch handled_def)
  next
    case (Some body)
    show ?thesis
    proof (cases body)
      case (Game gm)
      with Recv Some handle_game_ok[OF assms] show ?thesis by (simp add: dispatch handled_def)
    next
      case (Connect cm)
      with Recv Some handle_connect_ok[OF wf env, of p cm] show ?thesis
        by (auto simp: dispatch handled_def intro: one_id_same)
    next
      case (Data dm)
      with Recv Some have eq: "handle_message (env, m) s = Some (handle_data env p dm s)"
        by (simp add: dispatch)
      show ?thesis
        unfolding eq by (rule handled_SomeI) (simp add: handled_def handle_data_ok[OF wf env] one_id_same)
    next
      case (CloseConnection cm)
      with Recv Some handle_close_connection_ok[OF wf, of p cm] show ?thesis
        by (simp add: dispatch handled_def one_id_same)
    qed
  qed
next
  case (RemoveGameListener i)
  show ?thesis
    unfolding RemoveGameListener handle_message.simps
    by (rule handled_SomeI) (simp add: handled_def remove_game_listener_ok[OF wf] one_id_same)
next
  case (RemovePeer p)
  then show ?thesis 
    using wf_remove_peer[OF wf env] wf_ports_remove_peer[OF _ relay_wfD(1)[OF wf] env]
    by (simp add: handled_def one_id_def relay_frame)
qed

section \<open>The invariant through the message loop\<close>

lemma wf_Relay_new: "relay_wf (Relay_new port)"
proof -
  have "game_ids.sound (id_map_default :: (local_game_id, game) id_map)"
    by (simp add: game_ids.sound_def id_map_default_def)
  then show ?thesis
    by (simp add: relay_wf_def wf_parts Relay_new_def) (simp add: id_map_default_def)
qed

lemma wf_ports_Relay_new: "wf_ports (Relay_new port)"
  by (simp add: wf_ports_def ports_ok_def Relay_new_def port_of_def id_map_default_def)

definition step_ok :: "relay_env \<times> message \<Rightarrow> relay \<Rightarrow> bool" where
  "step_ok = (\<lambda>(env, m) s. env_lawful env)"

definition relay_inv :: "nat \<Rightarrow> relay \<Rightarrow> bool" where
  "relay_inv n s \<longleftrightarrow> relay_wf s \<and> unat (next_key (games s)) \<le> n"

lemma relay_inv_room: "relay_inv n s \<Longrightarrow> n + 1 < 2 ^ 64 \<Longrightarrow> keys_left (games s) (Suc 0)"
  by (simp add: relay_inv_def keys_left_def)

lemma relay_inv_step:
  assumes "relay_inv n s" "n + 1 < 2 ^ 64" "env_lawful env"
  shows "\<exists>s' out. handle_message (env, m) s = Some (s', out) \<and> relay_inv (Suc n) s'
    \<and> (wf_ports s \<longrightarrow> fresh_port env s \<longrightarrow> wf_ports s')"
proof -
  note room = relay_inv_room[OF assms(1,2)]
  obtain s' eff where s': "handle_message (env, m) s = Some (s', eff)" "handled env s s'"
    using handle_message_ok[OF _ assms(3) room, of m] assms(1) by (auto simp: relay_inv_def)
  moreover have "unat (next_key (games s')) \<le> Suc n"
    using s'(2) assms(1) unat_next_key[OF room] by (auto simp: handled_def one_id_def relay_inv_def)
  ultimately show ?thesis by (simp add: relay_inv_def handled_def)
qed

interpretation relay_loop: counted_loop handle_message step_ok "\<lambda>n. n + 1 < 2 ^ 64" relay_inv
  by unfold_locales (use relay_inv_step in \<open>fastforce simp: step_ok_def\<close>)

text \<open>The same with the invariant on ports, where the ports of new listeners are not recorded.\<close>

definition fresh_step_ok :: "relay_env \<times> message \<Rightarrow> relay \<Rightarrow> bool" where
  "fresh_step_ok = (\<lambda>(env, m) s. env_lawful env \<and> fresh_port env s)"

interpretation port_loop: counted_loop handle_message fresh_step_ok "\<lambda>n. n + 1 < 2 ^ 64"
  "\<lambda>n s. relay_inv n s \<and> wf_ports s"
  by unfold_locales (use relay_inv_step in \<open>fastforce simp: fresh_step_ok_def\<close>)

end
