(* ===== verification/Relay_Props.thy ===== *)
theory Relay_Props
  imports Relay_Inv
begin

text \<open>
  What the relay's handlers achieve: broadcasts reach every other peer, forwarding is bounded by the
  hop limit, the relay does not take its own advertisements for games of the LAN while it has their
  listeners, and what it advertises leads back to the game.
\<close>

section \<open>An environment\<close>

text \<open>
  An environment in which every channel is open and hash maps iterate in key order; it shows that
  the laws the environment has to obey can be met.
\<close>

definition env_ref :: relay_env where
  "env_ref =
     \<lparr>send_ok = (\<lambda>_. True), game_send_ok = (\<lambda>_. True), keepalive_ok = (\<lambda>_. True),
      new_listener = Ok \<lparr>gl_local_addr = V4 0 40000, gl_keepalive = GameListenerHandle 0\<rparr>,
      slice_mut = slice_ref, udp_send = (\<lambda>d. Ok (length d)),
      iter_peers = (\<lambda>m. sorted_list_of_set (dom m)),
      iter_games = (\<lambda>_ m. sorted_list_of_set (dom m))\<rparr>"

lemma env_lawful_ref: "env_lawful env_ref"
  by (auto simp: env_lawful_def env_ref_def iterates_def slice_ref.slice_writer_axioms)

lemma env_ref_simps [simp]:
  "send_ok env_ref h" "game_send_ok env_ref g" "keepalive_ok env_ref l"
  "new_listener env_ref = Ok \<lparr>gl_local_addr = V4 0 40000, gl_keepalive = GameListenerHandle 0\<rparr>"
  "iter_peers env_ref m = sorted_list_of_set (dom m)"
  "iter_games env_ref p n = sorted_list_of_set (dom n)"
  by (simp_all add: env_ref_def)

text \<open>A relay with two peers.\<close>

definition peer_a :: peer_id where
  "peer_a = PeerId (RelayStaticKey [1])"

definition peer_b :: peer_id where
  "peer_b = PeerId (RelayStaticKey [2])"

definition two_peers :: relay where
  "two_peers = add_peer peer_b (RelayConnectionHandle 2) (add_peer peer_a (RelayConnectionHandle 1) (Relay_new 5000))"

lemma peer_a_neq_b [simp]: "peer_a \<noteq> peer_b" "peer_b \<noteq> peer_a"
  by (simp_all add: peer_a_def peer_b_def)

lemma wf_two_peers: "relay_wf two_peers"
  by (simp add: two_peers_def wf_add_peer wf_Relay_new)

lemma two_peers_simps [simp]:
  "peers two_peers = [peer_a \<mapsto> Peer_new (RelayConnectionHandle 1), peer_b \<mapsto> Peer_new (RelayConnectionHandle 2)]"
  "games two_peers = id_map_default" "local_games two_peers = Map.empty" "listen_ports two_peers = {}"
  "discovery_port two_peers = 5000"
  by (auto simp: two_peers_def add_peer_def Relay_new_def)

lemma peer_a_less_b: "peer_a < peer_b"
  by (simp add: peer_a_def peer_b_def less_peer_id_def less_relay_static_key_def word_less_nat_alt)

lemma iter_two_peers: "iter_peers env_ref [peer_a \<mapsto> x, peer_b \<mapsto> y] = [peer_a, peer_b]"
  using peer_a_less_b by (simp add: insort_insert_insort insort_insert_triv insert_commute)

lemma room_two_peers: "keys_left (games two_peers) (Suc 0)"
  by (simp add: keys_left_def id_map_default_def)

lemma fresh_two_peers: "fresh_port env two_peers"
  by (simp add: fresh_port_def)

lemma wf_ports_two_peers: "wf_ports two_peers"
  by (simp add: wf_ports_def ports_ok_def port_of_def id_map_default_def)

section \<open>Removing peers and broadcasting\<close>

lemma peers_remove_peer [simp]: "peers (remove_peer env p s) = (peers s)(p := None)"
proof (cases "peers s p")
  case None
  then show ?thesis by (auto simp: remove_peer_def)
next
  case (Some peer)
  have "peers (snd (take_games gs t)) = peers t" for gs t
    by (subst take_games_eq(1)) simp
  with Some show ?thesis by (simp add: remove_peer_def split_beta foldl_cleanup_eq Let_def)
qed

lemma peers_remove_peers: "peers (remove_peers env ps s) = peers s |` (- set ps)"
  unfolding remove_peers_def
  by (induction ps arbitrary: s) (auto simp: restrict_map_def fun_eq_iff)

fun game_owner :: "game \<Rightarrow> peer_id option" where
  "game_owner (Local _) = None"
| "game_owner (Remote g) = Some (rgame_peer_id g)"

lemma game_ids_of_owner:
  assumes "relay_wf s" "peers s p = Some peer" "i \<in> game_ids_of peer"
  shows "\<exists>g. im_map (games s) i = Some g \<and> game_owner g = Some p"
proof -
  obtain r e where e: "peer_games peer r = Some e" "i = rg_local_game_id e"
    using assms(3) by (auto simp: game_ids_of_def ran_def)
  with wf_peer_gamesD[OF assms(1,2) e(1)] show ?thesis by force
qed

lemma remove_peer_keeps_game:
  assumes wf: "relay_wf s" and env: "env_lawful env"
    and g: "im_map (games s) i = Some g" "game_owner g \<noteq> Some p"
  shows "im_map (games (remove_peer env p s)) i = Some g"
proof (cases "peers s p")
  case None
  then show ?thesis using g by (simp add: remove_peer_None)
next
  case (Some peer)
  have "i \<notin> game_ids_of peer" using game_ids_of_owner[OF wf Some] g by force
  with g show ?thesis
    by (simp add: remove_peer_Some[OF Some env_iter_games[OF env relay_wfD(1)[OF wf] Some]])
qed

lemma remove_peers_keeps_game:
  assumes "relay_wf s" "env_lawful env" "im_map (games s) i = Some g" "\<forall>p \<in> set ps. game_owner g \<noteq> Some p"
  shows "im_map (games (remove_peers env ps s)) i = Some g"
  using assms
proof (induction ps arbitrary: s)
  case Nil
  then show ?case by (simp add: remove_peers_def)
next
  case (Cons p ps)
  have "remove_peers env (p # ps) s = remove_peers env ps (remove_peer env p s)"
    by (simp add: remove_peers_def)
  with Cons.IH[OF wf_remove_peer[OF Cons.prems(1,2)] Cons.prems(2)]
    remove_peer_keeps_game[OF Cons.prems(1-3)] Cons.prems(4)
  show ?case by simp
qed

definition reachable_peer :: "relay_env \<Rightarrow> (peer_id \<rightharpoonup> peer) \<Rightarrow> peer_id \<Rightarrow> bool" where
  "reachable_peer env ps p = send_ok env (peer_handle (the (ps p)))"

lemma send_each_eq:
  assumes "set ids \<subseteq> dom ps"
  shows "send_each env m ps ids =
    (map (\<lambda>p. SendPeer (peer_handle (the (ps p))) m) (filter (reachable_peer env ps) ids),
     filter (\<lambda>p. \<not> reachable_peer env ps p) ids)"
  using assms by (induction ids) (auto simp: reachable_peer_def)

text \<open>The peers to which a broadcast that skips \<open>from\<close> is delivered, and those it gives up on.\<close>

definition receivers :: "relay_env \<Rightarrow> peer_id option \<Rightarrow> relay \<Rightarrow> peer_id set" where
  "receivers env skip s =
     {p. Some p \<noteq> skip \<and> (\<exists>peer. peers s p = Some peer \<and> send_ok env (peer_handle peer))}"

definition unreachable :: "relay_env \<Rightarrow> peer_id option \<Rightarrow> relay \<Rightarrow> peer_id set" where
  "unreachable env skip s =
     {p. Some p \<noteq> skip \<and> (\<exists>peer. peers s p = Some peer \<and> \<not> send_ok env (peer_handle peer))}"

lemma broadcast_spec:
  assumes env: "env_lawful env" and fin: "wf_finite s"
    and ids: "ids = filter (\<lambda>p. Some p \<noteq> skip) (iter_peers env (peers s))"
    and send: "send_each env m (peers s) ids = (sent, errors)"
  shows "set sent = (\<lambda>p. SendPeer (peer_handle (the (peers s p))) m) ` receivers env skip s"
    and "length sent = card (receivers env skip s)"
    and "set errors = unreachable env skip s"
proof -
  have it: "iterates (iter_peers env (peers s)) (peers s)" using env fin by (rule env_iter_peers)
  then have sub: "set ids \<subseteq> dom (peers s)" and dist: "distinct ids"
    by (auto simp: ids iterates_def)
  have recv: "set (filter (reachable_peer env (peers s)) ids) = receivers env skip s"
    using iterates_set[OF it] by (auto simp: ids receivers_def reachable_peer_def dom_def)
  show "set sent = (\<lambda>p. SendPeer (peer_handle (the (peers s p))) m) ` receivers env skip s"
    using send send_each_eq[OF sub, of env m] recv by (auto simp del: set_filter)
  have "length sent = length (filter (reachable_peer env (peers s)) ids)"
    using send send_each_eq[OF sub, of env m] by auto
  also have "\<dots> = card (receivers env skip s)"
    using dist recv by (metis distinct_card distinct_filter)
  finally show "length sent = card (receivers env skip s)" .
  show "set errors = unreachable env skip s"
    using send send_each_eq[OF sub, of env m] iterates_set[OF it]
    by (auto simp: ids unreachable_def reachable_peer_def dom_def)
qed

section \<open>Runs\<close>

lemma relay_inv_new: "relay_inv 0 (Relay_new port)"
  using wf_Relay_new by (simp add: relay_inv_def Relay_new_def id_map_default_def)

text \<open>
  C1: from a new relay, every sequence of fewer than \<open>2^64\<close> messages is handled without a panic, and
  the state satisfies the invariant afterwards, in every environment in which hash maps are iterated
  completely and buffers behave as documented. If moreover every new listener got a port that was not
  recorded at the time, the recorded ports are exactly those of the games' listeners, each of one game.
\<close>

theorem run_keeps_invariant:
  assumes "\<forall>(env, m) \<in> set msgs. env_lawful env" "length msgs < 2 ^ 64"
  shows "\<exists>s eff. run msgs (Relay_new port) = Some (s, eff) \<and> relay_wf s
    \<and> (inputs_ok handle_message fresh_step_ok msgs (Relay_new port) \<longrightarrow> wf_ports s)"
proof -
  have ok: "inputs_ok handle_message step_ok msgs (Relay_new port)"
    by (rule inputs_ok_all) (use assms(1) in \<open>auto simp: step_ok_def\<close>)
  obtain s eff where s: "run msgs (Relay_new port) = Some (s, eff)" "relay_wf s"
    using relay_loop.run_inv[OF relay_inv_new ok] assms(2) by (auto simp: run_def relay_inv_def)
  moreover have "wf_ports s" if "inputs_ok handle_message fresh_step_ok msgs (Relay_new port)"
    using port_loop.run_inv[of 0 "Relay_new port" msgs] that relay_inv_new wf_ports_Relay_new assms(2) s(1)
    by (auto simp: run_def)
  ultimately show ?thesis by blast
qed

theorem run_keeps_invariant_witness:
  "\<exists>s eff. run [(env_ref, AddPeer peer_a (RelayConnectionHandle 1)),
        (env_ref, Recv peer_a \<lparr>inner = Some (Game \<lparr>rgm_id = 7, rgm_motd = [65], rgm_hops = 0\<rparr>)\<rparr>)] (Relay_new 5000) = Some (s, eff)
    \<and> relay_wf s \<and> wf_ports s"
proof -
  let ?ms = "[(env_ref, AddPeer peer_a (RelayConnectionHandle 1)),
      (env_ref, Recv peer_a \<lparr>inner = Some (Game \<lparr>rgm_id = 7, rgm_motd = [65], rgm_hops = 0\<rparr>)\<rparr>)]"
  have "inputs_ok handle_message fresh_step_ok ?ms (Relay_new 5000)"
    by (simp add: fresh_step_ok_def env_lawful_ref fresh_port_def Relay_new_def add_peer_def split: option.split)
  with run_keeps_invariant[of ?ms 5000] show ?thesis by (auto simp: env_lawful_ref)
qed

section \<open>Advertisements\<close>

lemma forward_game_eq:
  assumes "rgm_hops gm < MAX_FORWARDING_HOPS" "forward_game env from i gm s = (s', eff)"
  obtains errors where "send_each env
      \<lparr>inner = Some (Game \<lparr>rgm_id = lg_u64 i, rgm_motd = rgm_motd gm, rgm_hops = rgm_hops gm + 1\<rparr>)\<rparr>
      (peers s) (filter (\<lambda>p. Some p \<noteq> Some from) (iter_peers env (peers s))) = (eff, errors)"
    and "s' = remove_peers env errors s"
  using assms by (auto simp: forward_game_def Let_def not_le[symmetric] split: prod.splits if_splits)

lemma forward_game_reaches:
  assumes "wf_finite s" "env_lawful env" "rgm_hops gm < MAX_FORWARDING_HOPS"
    and "q \<noteq> from" "peers s q = Some peer" "send_ok env (peer_handle peer)"
    and "forward_game env from i gm s = (s', eff)"
  shows "SendPeer (peer_handle peer) \<lparr>inner = Some (Game \<lparr>rgm_id = lg_u64 i, rgm_motd = rgm_motd gm,
      rgm_hops = rgm_hops gm + 1\<rparr>)\<rparr> \<in> set eff"
proof -
  obtain errors where send: "send_each env
      \<lparr>inner = Some (Game \<lparr>rgm_id = lg_u64 i, rgm_motd = rgm_motd gm, rgm_hops = rgm_hops gm + 1\<rparr>)\<rparr>
      (peers s) (filter (\<lambda>p. Some p \<noteq> Some from) (iter_peers env (peers s))) = (eff, errors)"
    using forward_game_eq[OF assms(3,7)] by blast
  have "q \<in> receivers env (Some from) s" using assms(4-6) by (simp add: receivers_def)
  then show ?thesis
    unfolding broadcast_spec(1)[OF assms(2,1) refl send] using assms(5) by force
qed

text \<open>
  C21: an advertisement below the hop limit is forwarded, with one hop more, exactly once to every
  other peer whose channel is open and never back to the peer it came from; the peers whose channel
  is closed are removed and all others stay as they were.
\<close>

theorem forward_game_broadcasts:
  assumes "relay_wf s" "env_lawful env" "rgm_hops gm < MAX_FORWARDING_HOPS"
    and "forward_game env from i gm s = (s', eff)"
  shows "set eff = {SendPeer (peer_handle peer) \<lparr>inner = Some (Game \<lparr>rgm_id = lg_u64 i,
            rgm_motd = rgm_motd gm, rgm_hops = rgm_hops gm + 1\<rparr>)\<rparr> | p peer.
            p \<noteq> from \<and> peers s p = Some peer \<and> send_ok env (peer_handle peer)}
    \<and> length eff = card {p. p \<noteq> from \<and> (\<exists>peer. peers s p = Some peer \<and> send_ok env (peer_handle peer))}
    \<and> (\<forall>p. peers s' p = (case peers s p of
          None \<Rightarrow> None
        | Some peer \<Rightarrow> if p = from \<or> send_ok env (peer_handle peer) then Some peer else None))"
proof -
  let ?m = "\<lparr>inner = Some (Game \<lparr>rgm_id = lg_u64 i, rgm_motd = rgm_motd gm, rgm_hops = rgm_hops gm + 1\<rparr>)\<rparr>"
  obtain errors where send: "send_each env ?m (peers s)
      (filter (\<lambda>p. Some p \<noteq> Some from) (iter_peers env (peers s))) = (eff, errors)"
    and s': "s' = remove_peers env errors s"
    using forward_game_eq[OF assms(3,4)] by blast
  note spec = broadcast_spec[OF assms(2) relay_wfD(1)[OF assms(1)] refl send]
  have "set eff = {SendPeer (peer_handle peer) ?m | p peer.
      p \<noteq> from \<and> peers s p = Some peer \<and> send_ok env (peer_handle peer)}"
    unfolding spec(1) receivers_def by force
  moreover have "length eff = card {p. p \<noteq> from \<and> (\<exists>peer. peers s p = Some peer \<and> send_ok env (peer_handle peer))}"
    unfolding spec(2) receivers_def by simp
  moreover have "peers s' p = (case peers s p of
        None \<Rightarrow> None
      | Some peer \<Rightarrow> if p = from \<or> send_ok env (peer_handle peer) then Some peer else None)" for p
    unfolding s' peers_remove_peers spec(3) unreachable_def
    by (auto simp: restrict_map_def split: option.split)
  ultimately show ?thesis by blast
qed

theorem forward_game_broadcasts_witness:
  "length (snd (forward_game env_ref peer_a (LocalGameId 0) \<lparr>rgm_id = 7, rgm_motd = [], rgm_hops = 0\<rparr> two_peers)) = 1"
proof -
  let ?gm = "\<lparr>rgm_id = 7, rgm_motd = [], rgm_hops = 0\<rparr>"
  have "{p. p \<noteq> peer_a \<and> (\<exists>peer. peers two_peers p = Some peer \<and> send_ok env_ref (peer_handle peer))} = {peer_b}"
    by auto
  then show ?thesis
    using forward_game_broadcasts[OF wf_two_peers env_lawful_ref, of ?gm peer_a "LocalGameId 0"]
    by (cases "forward_game env_ref peer_a (LocalGameId 0) ?gm two_peers") (simp add: MAX_FORWARDING_HOPS_def)
qed

text \<open>The entry of an address in the table of local games, made when it is missing.\<close>

definition local_game_entry :: "socket_addr \<Rightarrow> relay \<Rightarrow> local_game_id \<times> relay" where
  "local_game_entry a s =
     (case local_games s a of
        Some i \<Rightarrow> (i, s)
      | None \<Rightarrow>
          (let (i, gs) = Id_Map.add LocalGameId (Local \<lparr>lgame_addr = a\<rparr>) (games s)
           in (i, s\<lparr>games := gs, local_games := (local_games s)(a \<mapsto> i)\<rparr>)))"

lemma local_game_entry_props:
  assumes "local_game_entry a s = (i, s1)"
  shows "peers s1 = peers s" "local_games s1 a = Some i" "\<And>j. local_games s a = Some j \<Longrightarrow> i = j"
    "listen_ports s1 = listen_ports s" "discovery_port s1 = discovery_port s"
    "local_games s \<subseteq>\<^sub>m local_games s1"
  using assms by (auto simp: local_game_entry_def map_le_def split: option.splits prod.splits)

lemma add_local_game_eq:
  assumes "addr_port src \<noteq> discovery_port s \<or> port \<notin> listen_ports s"
    and "add_local_game env src port motd s = (s', eff)"
  obtains i s1 errors where "local_game_entry (set_port src port) s = (i, s1)"
    and "send_each env \<lparr>inner = Some (Game \<lparr>rgm_id = lg_u64 i, rgm_motd = motd, rgm_hops = 0\<rparr>)\<rparr>
      (peers s1) (filter (\<lambda>p. Some p \<noteq> None) (iter_peers env (peers s1))) = (eff, errors)"
    and "s' = remove_peers env errors s1"
proof (cases "local_game_entry (set_port src port) s")
  case (Pair i s1)
  then have "add_local_game env src port motd s =
      (let (sent, errors) = send_each env \<lparr>inner = Some (Game \<lparr>rgm_id = lg_u64 i, rgm_motd = motd, rgm_hops = 0\<rparr>)\<rparr>
         (peers s1) (iter_peers env (peers s1)) in (remove_peers env errors s1, sent))"
    using assms(1) by (auto simp: add_local_game_def local_game_entry_def Let_def)
  with Pair assms(2) that show ?thesis by (auto simp: Let_def split: prod.splits)
qed

text \<open>
  C22: a game announced on the LAN that is not one of this relay's own gets one id per address, new
  or the one it had, and is advertised under it with no hops to exactly the peers whose channel is
  open.
\<close>

theorem local_game_broadcasts:
  assumes "relay_wf s" "env_lawful env"
    and "addr_port src \<noteq> discovery_port s \<or> port \<notin> listen_ports s"
    and "add_local_game env src port motd s = (s', eff)"
  shows "\<exists>i. local_games s' (set_port src port) = Some i
    \<and> (\<forall>j. local_games s (set_port src port) = Some j \<longrightarrow> i = j)
    \<and> set eff = {SendPeer (peer_handle peer) \<lparr>inner = Some (Game \<lparr>rgm_id = lg_u64 i,
            rgm_motd = motd, rgm_hops = 0\<rparr>)\<rparr> | p peer.
            peers s p = Some peer \<and> send_ok env (peer_handle peer)}
    \<and> length eff = card {p. \<exists>peer. peers s p = Some peer \<and> send_ok env (peer_handle peer)}"
proof -
  let ?a = "set_port src port"
  obtain i s1 errors where entry: "local_game_entry ?a s = (i, s1)"
    and send: "send_each env \<lparr>inner = Some (Game \<lparr>rgm_id = lg_u64 i, rgm_motd = motd, rgm_hops = 0\<rparr>)\<rparr>
      (peers s1) (filter (\<lambda>p. Some p \<noteq> None) (iter_peers env (peers s1))) = (eff, errors)"
    and s': "s' = remove_peers env errors s1"
    using add_local_game_eq[OF assms(3,4)] by blast
  note s1 = local_game_entry_props[OF entry]
  let ?m = "\<lparr>inner = Some (Game \<lparr>rgm_id = lg_u64 i, rgm_motd = motd, rgm_hops = 0\<rparr>)\<rparr>"
  note spec = broadcast_spec[OF assms(2) relay_wfD(1)[OF assms(1)] refl send[unfolded s1(1)]]
  have "set eff = {SendPeer (peer_handle peer) ?m | p peer. peers s p = Some peer \<and> send_ok env (peer_handle peer)}"
    unfolding spec(1) receivers_def by force
  moreover have "length eff = card {p. \<exists>peer. peers s p = Some peer \<and> send_ok env (peer_handle peer)}"
    unfolding spec(2) receivers_def by simp
  ultimately show ?thesis
    using s1(2,3) by (intro exI[of _ i]) (auto simp: s' relay_frame)
qed

theorem local_game_broadcasts_witness:
  "length (snd (add_local_game env_ref (V4 1 4445) 25565 [] two_peers)) = 2"
proof -
  have "{p. \<exists>peer. peers two_peers p = Some peer \<and> send_ok env_ref (peer_handle peer)} = {peer_a, peer_b}"
    by auto
  then show ?thesis
    using local_game_broadcasts[OF wf_two_peers env_lawful_ref, of "V4 1 4445" 25565 "[]"]
    by (cases "add_local_game env_ref (V4 1 4445) 25565 [] two_peers") auto
qed

lemma send_each_msg: "SendPeer h m' \<in> set (fst (send_each env m ps ids)) \<Longrightarrow> m' = m"
  by (induction ids) (auto simp: split_beta Let_def split: option.splits if_splits)

lemma send_each_only_peers: "x \<in> set (fst (send_each env m ps ids)) \<Longrightarrow> \<exists>h. x = SendPeer h m"
  by (induction ids) (auto simp: split_beta Let_def split: option.splits if_splits)

lemma check_listener_quiet: "SendPeer h m \<notin> set (snd (snd (check_listener env g P)))"
  by (simp add: check_listener_def split: option.split)

lemma start_listener_quiet: "SendPeer h m \<notin> set (snd (snd (start_listener env i g P)))"
  by (simp add: start_listener_def split: option.split sum.split)

lemma advertise_quiet: "advertise env g motd = Some eff \<Longrightarrow> SendPeer h m \<notin> set eff"
  by (auto simp: advertise_def split: option.splits)

lemma add_game_quiet: "add_game env from gm s = Some (s', eff, e) \<Longrightarrow> SendPeer h m \<notin> set eff"
  using check_listener_quiet[of h m env] start_listener_quiet[of h m env]
  by (auto simp: add_game_def Let_def split_beta dest: advertise_quiet split: option.splits game.splits)

lemma handle_gameE:
  assumes "handle_game env from gm s = Some (s', eff)"
  obtains (dropped) "add_game env from gm s = Some (s', eff, None)"
  | (forwarded) s1 added e fwd where "add_game env from gm s = Some (s1, added, Some e)"
      "forward_game env from (rg_local_game_id e) gm s1 = (s', fwd)" "eff = added @ fwd"
proof -
  obtain s1 added r where add: "add_game env from gm s = Some (s1, added, r)"
    using assms by (cases "add_game env from gm s") (auto simp: handle_game_def)
  show thesis
  proof (cases r)
    case None
    with add assms dropped show thesis by (simp add: handle_game_def)
  next
    case (Some e)
    with add assms forwarded show thesis
      by (cases "forward_game env from (rg_local_game_id e) gm s1") (simp add: handle_game_def)
  qed
qed

lemma forward_game_msg:
  assumes "SendPeer h m \<in> set (snd (forward_game env from i gm s))"
  shows "rgm_hops gm < MAX_FORWARDING_HOPS
    \<and> m = \<lparr>inner = Some (Game \<lparr>rgm_id = lg_u64 i, rgm_motd = rgm_motd gm, rgm_hops = rgm_hops gm + 1\<rparr>)\<rparr>"
  using assms
  by (auto simp: forward_game_def Let_def split_beta not_le split: if_splits dest: send_each_msg)

lemma forward_connect_msg:
  assumes "forward_connect env from to r cm s = Some (s', eff)" "SendPeer h m \<in> set eff"
  shows "rc_hops cm < MAX_FORWARDING_HOPS
    \<and> (\<exists>c. m = \<lparr>inner = Some (Connect \<lparr>rc_game_id = rg_u64 r, rc_connection_id = c, rc_hops = rc_hops cm + 1\<rparr>)\<rparr>)"
  using assms
  by (auto simp: forward_connect_def Let_def not_le split: if_splits option.splits)

lemma hop_increment:
  assumes "k < MAX_FORWARDING_HOPS"
  shows "unat (k + 1) = unat k + 1 \<and> k + 1 \<le> MAX_FORWARDING_HOPS"
proof -
  have "unat k < 2" using assms by (simp add: MAX_FORWARDING_HOPS_def word_less_nat_alt)
  then have "unat (k + 1) = unat k + 1" by (simp add: unat_word_ariths)
  with \<open>unat k < 2\<close> show ?thesis by (simp add: MAX_FORWARDING_HOPS_def word_le_nat_alt)
qed

lemma peer_message_hops:
  assumes "handle_peer_message env from m s = Some (s', eff)" "SendPeer h m' \<in> set eff"
    and "message_hops m' = Some k'"
  shows "\<exists>k. message_hops m = Some k \<and> k < MAX_FORWARDING_HOPS \<and> unat k' = unat k + 1 \<and> k' \<le> MAX_FORWARDING_HOPS"
proof -
  consider (game) gm where "inner m = Some (Game gm)" | (connect) cm where "inner m = Some (Connect cm)"
    | (data) dm where "inner m = Some (Data dm)" | (other) "eff = []"
    using assms(1) by (auto simp: handle_peer_message_def split: option.splits relay_inner.splits)
  then show ?thesis
  proof cases
    case game
    have "handle_game env from gm s = Some (s', eff)"
      using assms(1) game by (simp add: handle_peer_message_def)
    then have "\<exists>s1 i. SendPeer h m' \<in> set (snd (forward_game env from i gm s1))"
    proof (cases rule: handle_gameE)
      case dropped
      with add_game_quiet[OF dropped] assms(2) show ?thesis by simp
    next
      case (forwarded s1 added e fwd)
      with add_game_quiet[OF forwarded(1)] assms(2)
      have "SendPeer h m' \<in> set (snd (forward_game env from (rg_local_game_id e) gm s1))" by auto
      then show ?thesis by blast
    qed
    then have "rgm_hops gm < MAX_FORWARDING_HOPS" "k' = rgm_hops gm + 1"
      using forward_game_msg assms(3) by (fastforce simp: message_hops_def)+
    then show ?thesis using game hop_increment by (simp add: message_hops_def)
  next
    case connect
    have "handle_connect env from cm s = Some (s', eff)"
      using assms(1) connect by (simp add: handle_peer_message_def)
    then obtain to r where "forward_connect env from to r cm s = Some (s', eff)"
      using assms(2)
      by (auto simp: handle_connect_def connect_local_def Let_def split: option.splits game.splits)
    then have "rc_hops cm < MAX_FORWARDING_HOPS" "k' = rc_hops cm + 1"
      using forward_connect_msg[OF _ assms(2)] assms(3) by (fastforce simp: message_hops_def)+
    then show ?thesis using connect hop_increment by (simp add: message_hops_def)
  next
    case data
    then have "handle_data env from dm s = (s', eff)"
      using assms(1) by (simp add: handle_peer_message_def)
    then have "message_hops m' = None"
      using assms(2)
      by (auto simp: handle_data_def message_hops_def Let_def split: option.splits if_splits)
    then show ?thesis using assms(3) by simp
  next
    case other
    then show ?thesis using assms(2) by simp
  qed
qed

text \<open>
  C3: forwarding is bounded. Whatever a relay sends to a peer in response to a peer's message, if
  it carries a hop count then the message it answers carried one below the limit, and the count has
  grown by exactly one, without wrapping, to at most the limit.
\<close>

theorem forwarding_increments_hops:
  assumes "handle_peer_message env from m s = Some (s', eff)" "SendPeer h m' \<in> set eff"
    and "message_hops m' = Some k'"
  shows "\<exists>k. message_hops m = Some k \<and> k < MAX_FORWARDING_HOPS \<and> unat k' = unat k + 1 \<and> k' \<le> MAX_FORWARDING_HOPS"
  using assms by (rule peer_message_hops)

theorem forwarding_increments_hops_witness:
  "\<exists>s' eff. handle_peer_message (env_ref\<lparr>iter_peers := \<lambda>_. [peer_a, peer_b]\<rparr>) peer_a
       \<lparr>inner = Some (Game \<lparr>rgm_id = 7, rgm_motd = [], rgm_hops = 1\<rparr>)\<rparr> two_peers = Some (s', eff)
     \<and> SendPeer (RelayConnectionHandle 2) \<lparr>inner = Some (Game \<lparr>rgm_id = 0, rgm_motd = [], rgm_hops = 2\<rparr>)\<rparr> \<in> set eff
     \<and> (2 :: u64) \<le> MAX_FORWARDING_HOPS"
proof -
  let ?env = "env_ref\<lparr>iter_peers := \<lambda>_. [peer_a, peer_b]\<rparr>"
  let ?m = "\<lparr>inner = Some (Game \<lparr>rgm_id = 7, rgm_motd = [], rgm_hops = 1\<rparr>)\<rparr>"
  let ?m' = "\<lparr>inner = Some (Game \<lparr>rgm_id = 0, rgm_motd = [], rgm_hops = 2\<rparr>)\<rparr>"
  obtain s' eff where run: "handle_peer_message ?env peer_a ?m two_peers = Some (s', eff)"
    and sent: "SendPeer (RelayConnectionHandle 2) ?m' \<in> set eff"
    by (simp add: handle_peer_message_def handle_game_def add_game_def forward_game_def next_id_def
        Peer_new_def id_map_default_def check_listener_def start_listener_def advertise_def
        send_eq env_ref_def slice_ref.slice_writer_axioms MAX_FORWARDING_HOPS_def Let_def word_le_nat_alt)
  have "message_hops ?m' = Some 2" by (simp add: message_hops_def)
  from forwarding_increments_hops[OF run sent this] run sent show ?thesis by auto
qed

lemma send_each_errors: "set (snd (send_each env m ps ids)) \<subseteq> set ids"
  by (induction ids) (auto simp: split_beta Let_def split: option.splits)

lemma forward_game_state:
  "\<exists>errors. fst (forward_game env from i gm s) = remove_peers env errors s \<and> from \<notin> set errors"
proof (cases "MAX_FORWARDING_HOPS \<le> rgm_hops gm")
  case True
  then have "fst (forward_game env from i gm s) = remove_peers env [] s"
    by (simp add: forward_game_def remove_peers_def)
  then show ?thesis by (intro exI[of _ "[]"]) simp
next
  case False
  let ?m = "\<lparr>inner = Some (Game \<lparr>rgm_id = lg_u64 i, rgm_motd = rgm_motd gm, rgm_hops = rgm_hops gm + 1\<rparr>)\<rparr>"
  let ?ids = "filter (\<lambda>p. p \<noteq> from) (iter_peers env (peers s))"
  have "fst (forward_game env from i gm s) = remove_peers env (snd (send_each env ?m (peers s) ?ids)) s"
    using False by (simp add: forward_game_def split_beta Let_def)
  moreover have "from \<notin> set (snd (send_each env ?m (peers s) ?ids))"
    using send_each_errors[of env ?m "peers s" ?ids] by auto
  ultimately show ?thesis by blast
qed

lemma refresh_listener_no_datagram:
  assumes "refresh_listener env i g P = (g', P', eff)"
  shows "SendDatagram d \<notin> set eff"
  using assms
  by (auto simp: refresh_listener_def check_listener_def start_listener_def split: prod.splits option.splits sum.splits if_splits)

lemma advertise_datagram:
  assumes "advertise env g motd = Some adv" "SendDatagram d \<in> set adv"
  obtains l res ds where "rgame_listener g = Some l" "d \<in> set ds"
    "DiscoverySender_send (slice_mut env) (udp_send env)
        \<lparr>dp_port = addr_port (rgl_addr l), dp_motd = motd\<rparr> = Some (res, ds)"
  using assms by (auto simp: advertise_def split: option.splits)

lemma add_game_frame [relay_frame]:
  "add_game env from gm s = Some (s1, eff, r) \<Longrightarrow> discovery_port s1 = discovery_port s"
  "add_game env from gm s = Some (s1, eff, r) \<Longrightarrow> local_games s1 = local_games s"
  by (auto simp: add_game_def Let_def split_beta split: option.splits game.splits)

text \<open>
  A game advertised by a known peer: afterwards the peer's entry leads to its game, whatever peers
  the forwarding gives up on.
\<close>

lemma handle_game_known:
  assumes "relay_wf s" "env_lawful env" "keys_left (games s) (Suc n)"
    and peer: "peers s from = Some peer"
  obtains s1 s' listened adv fwd e g where
    "handle_game env from gm s = Some (s', listened @ adv @ fwd)" "relay_wf s'"
    and "add_game env from gm s = Some (s1, listened @ adv, Some e)" "relay_wf s1"
    and "peers s1 = (peers s)(from \<mapsto> peer\<lparr>peer_games := (peer_games peer)(RemoteGameId (rgm_id gm) \<mapsto> e)\<rparr>)"
    and "forward_game env from (rg_local_game_id e) gm s1 = (s', fwd)"
    and "peers s' from = Some (peer\<lparr>peer_games := (peer_games peer)(RemoteGameId (rgm_id gm) \<mapsto> e)\<rparr>)"
    and "im_map (games s') (rg_local_game_id e) = Some (Remote g)"
    and "rgame_peer_id g = from" "rgame_remote_game_id g = RemoteGameId (rgm_id gm)"
    and "\<forall>d. SendDatagram d \<notin> set listened" "advertise env g (rgm_motd gm) = Some adv"
    and "discovery_port s' = discovery_port s" "wf_ports s \<Longrightarrow> fresh_port env s \<Longrightarrow> wf_ports s'"
proof -
  obtain s1 listened adv e g0 P P' g where add: "add_game env from gm s = Some (s1, listened @ adv, Some e)"
    and s1: "relay_wf s1" "im_map (games s1) = (im_map (games s))(rg_local_game_id e \<mapsto> Remote g)"
    and p1: "peers s1 = (peers s)(from \<mapsto> peer\<lparr>peer_games := (peer_games peer)(RemoteGameId (rgm_id gm) \<mapsto> e)\<rparr>)"
    and re: "refresh_listener env (rg_local_game_id e) g0 P = (g, P', listened)"
    and adv: "advertise env g (rgm_motd gm) = Some adv"
    and own: "rgame_peer_id g = from" "rgame_remote_game_id g = RemoteGameId (rgm_id gm)"
    and ports: "wf_ports s \<Longrightarrow> fresh_port env s \<Longrightarrow> wf_ports s1"
    by (rule add_game_ok[OF assms, of gm]) metis
  obtain s' fwd where fwd: "forward_game env from (rg_local_game_id e) gm s1 = (s', fwd)" by fastforce
  obtain errors where s': "s' = remove_peers env errors s1" "from \<notin> set errors"
    using forward_game_state[of env "from" "rg_local_game_id e" gm s1] fwd by auto
  have game: "im_map (games s1) (rg_local_game_id e) = Some (Remote g)" by (simp add: s1(2))
  show thesis
  proof (rule that[OF _ _ add s1(1) p1 fwd _ _ own _ adv])
    show "handle_game env from gm s = Some (s', listened @ adv @ fwd)"
      using add fwd by (simp add: handle_game_def)
    show "relay_wf s'" using wf_remove_peers[OF s1(1) assms(2)] s' by simp
    show "peers s' from = Some (peer\<lparr>peer_games := (peer_games peer)(RemoteGameId (rgm_id gm) \<mapsto> e)\<rparr>)"
      using s' p1 by (simp add: peers_remove_peers)
    show "im_map (games s') (rg_local_game_id e) = Some (Remote g)"
      unfolding s'(1) by (rule remove_peers_keeps_game[OF s1(1) assms(2) game]) (use s'(2) own in auto)
    show "\<forall>d. SendDatagram d \<notin> set listened" using refresh_listener_no_datagram[OF re] by blast
    show "discovery_port s' = discovery_port s" using s' add relay_frame by simp
    show "wf_ports s'" if "wf_ports s" "fresh_port env s"
      using wf_ports_remove_peers[OF ports[OF that] s1(1) assms(2)] s' by simp
  qed
qed

lemma listener_port_recorded:
  assumes "wf_ports s" "im_map (games s) i = Some (Remote g)" "rgame_listener g = Some l"
  shows "addr_port (rgl_addr l) \<in> listen_ports s"
proof -
  have "port_of (im_map (games s)) i = Some (addr_port (rgl_addr l))"
    using assms(2,3) by (simp add: port_of_def)
  then show ?thesis using assms(1) by (auto simp: wf_ports_def ports_ok_def)
qed

lemma handle_message_discovery_port [relay_frame]:
  assumes "handle_message (env, m) s = Some (s', eff)"
  shows "discovery_port s' = discovery_port s"
proof (cases m)
  case (Recv p m')
  show ?thesis
  proof (cases "inner m'")
    case (Some x)
    show ?thesis
    proof (cases x)
      case (Game gm)
      with Recv Some assms have "handle_game env p gm s = Some (s', eff)" by (simp add: handle_peer_message_def)
      then show ?thesis
        by (cases rule: handle_gameE) (auto simp: relay_frame forward_game_def Let_def split_beta split: if_splits)
    qed (use Recv Some assms in \<open>auto simp: relay_frame handle_peer_message_def handle_connect_def connect_local_def
        forward_connect_def handle_data_def handle_close_connection_def Let_def split: option.splits game.splits if_splits\<close>)
  qed (use Recv assms in \<open>simp add: handle_peer_message_def\<close>)
next
  case (AddLocalGame src port motd)
  with assms show ?thesis
    by (auto simp: add_local_game_def Let_def relay_frame split_beta split: if_splits option.splits)
qed (use assms in \<open>auto simp: relay_frame accept_game_connection_def add_game_connection_def add_peer_def
    remove_game_listener_def Let_def split: option.splits game.splits if_splits\<close>)

lemma run_discovery_port:
  "run ms s = Some (s', eff) \<Longrightarrow> discovery_port s' = discovery_port s"
  unfolding run_def
proof (induction ms arbitrary: s eff)
  case (Cons x ms)
  obtain env m where "x = (env, m)" by fastforce
  with Cons show ?case by (auto simp: handle_message_discovery_port split: option.splits)
qed simp

text \<open>What an advertisement of a known peer's game puts out on the LAN, and the listener it is about.\<close>

lemma advertised_listener:
  assumes "relay_wf s" "env_lawful env" "keys_left (games s) (Suc n)" "nom_parsers N"
    and "handle_game env from gm s = Some (s', eff)" "SendDatagram d \<in> set eff"
  obtains peer e g l where "relay_wf s'" "wf_ports s \<Longrightarrow> fresh_port env s \<Longrightarrow> wf_ports s'"
    and "peers s' from = Some peer" "peer_games peer (RemoteGameId (rgm_id gm)) = Some e"
    and "im_map (games s') (rg_local_game_id e) = Some (Remote g)" "rgame_peer_id g = from" "rgame_listener g = Some l"
    and "parse N (take MAX_PACKET_SIZE d) = Ok \<lparr>dp_port = addr_port (rgl_addr l), dp_motd = rgm_motd gm\<rparr>"
proof -
  obtain peer where peer: "peers s from = Some peer"
    using assms(5,6) by (cases "peers s from") (auto simp: handle_game_def add_game_def)
  obtain s1 s1' listened adv fwd e g where h: "handle_game env from gm s = Some (s1', listened @ adv @ fwd)" "relay_wf s1'"
    and "add_game env from gm s = Some (s1, listened @ adv, Some e)"
    and fwd: "forward_game env from (rg_local_game_id e) gm s1 = (s1', fwd)"
    and entry: "peers s1' from = Some (peer\<lparr>peer_games := (peer_games peer)(RemoteGameId (rgm_id gm) \<mapsto> e)\<rparr>)"
    and g: "im_map (games s1') (rg_local_game_id e) = Some (Remote g)" "rgame_peer_id g = from"
    and adv: "\<forall>d. SendDatagram d \<notin> set listened" "advertise env g (rgm_motd gm) = Some adv"
    and ports: "wf_ports s \<Longrightarrow> fresh_port env s \<Longrightarrow> wf_ports s1'"
    by (rule handle_game_known[OF assms(1-3) peer, of gm]) (rule that; assumption)
  have s': "s1' = s'" "eff = listened @ adv @ fwd" using h(1) assms(5) by simp_all
  have "SendDatagram d \<in> set adv"
    using assms(6) s' fwd adv(1) send_each_only_peers
    by (fastforce simp: forward_game_def Let_def split_beta split: if_splits)
  then obtain l res ds where l: "rgame_listener g = Some l" "d \<in> set ds"
    and sent: "DiscoverySender_send (slice_mut env) (udp_send env)
        \<lparr>dp_port = addr_port (rgl_addr l), dp_motd = rgm_motd gm\<rparr> = Some (res, ds)"
    using advertise_datagram[OF adv(2)] by blast
  have "parse N (take MAX_PACKET_SIZE d) = Ok \<lparr>dp_port = addr_port (rgl_addr l), dp_motd = rgm_motd gm\<rparr>"
    using sent_packet_parses[OF assms(4) _ sent l(2)] assms(2) by (simp add: env_lawful_def)
  then show thesis using that h(2) ports entry g l(1) s'(1) by simp
qed

text \<open>A port that is not recorded is taken for that of a game, and so is one of a removed peer.\<close>

lemma unrecorded_port_taken:
  assumes "port \<notin> listen_ports s"
  shows "set_port src port \<in> dom (local_games (fst (add_local_game env src port motd s)))"
proof -
  obtain s' sent where add: "add_local_game env src port motd s = (s', sent)" by fastforce
  obtain k s1 errors where "local_game_entry (set_port src port) s = (k, s1)" "s' = remove_peers env errors s1"
    using add_local_game_eq[OF disjI2[OF assms] add] by blast
  then show ?thesis using add local_game_entry_props(2) by (fastforce simp: relay_frame)
qed

lemma removed_peer_port:
  assumes "relay_wf s" "env_lawful env" "peers s p = Some peer" "peer_games peer r = Some e"
    and "im_map (games s) (rg_local_game_id e) = Some (Remote g)" "rgame_listener g = Some l"
  shows "addr_port (rgl_addr l) \<notin> listen_ports (remove_peer env p s)"
proof -
  have "addr_port (rgl_addr l) \<in> ports_at (im_map (games s)) (game_ids_of peer)"
    using assms(4-6) by (auto simp: ports_at_def port_of_def game_ids_of_def ran_def)
  then show ?thesis
    by (simp add: remove_peer_Some[OF assms(3) env_iter_games[OF assms(2) relay_wfD(1)[OF assms(1)] assms(3)]])
qed

text \<open>
  C6: the relay does not relay itself, as long as it has the listener. A datagram that it sends to advertise a
  peer's game on its own LAN parses to a packet with the port of the game's listener. Received back from
  the relay's discovery socket at any later time, after any further messages, the packet is ignored by
  \<open>add_local_game\<close> while some game of the relay has a listener with this port, provided that all new
  listeners got ports that were not recorded. The condition is needed: when the peer is removed before
  the datagram comes back, the relay takes its own advertisement for a game of the LAN.
\<close>

theorem own_advertisement_ignored:
  assumes "relay_wf s" "wf_ports s" "keys_left (games s) (Suc (length ms))" "nom_parsers N"
    and "inputs_ok handle_message fresh_step_ok ((env, Recv from \<lparr>inner = Some (Game gm)\<rparr>) # ms) s"
    and "handle_game env from gm s = Some (s1, eff)" "SendDatagram d \<in> set eff" "run ms s1 = Some (s', eff')"
    and "addr_port src = discovery_port s" "env_lawful env''"
  shows "\<exists>p i g l. parse N (take MAX_PACKET_SIZE d) = Ok p
    \<and> im_map (games s1) i = Some (Remote g) \<and> rgame_peer_id g = from
    \<and> rgame_listener g = Some l \<and> addr_port (rgl_addr l) = dp_port p
    \<and> ((\<exists>i' g' l'. im_map (games s') i' = Some (Remote g') \<and> rgame_listener g' = Some l' \<and> addr_port (rgl_addr l') = dp_port p)
        \<longrightarrow> add_local_game env' src (dp_port p) (dp_motd p) s' = (s', []))
    \<and> set_port src (dp_port p)
        \<in> dom (local_games (fst (add_local_game env' src (dp_port p) (dp_motd p) (remove_peer env'' from s1))))"
proof -
  let ?m = "(env, Recv from \<lparr>inner = Some (Game gm)\<rparr>)"
  have m: "handle_message ?m s = Some (s1, eff)" using assms(6) by (simp add: handle_peer_message_def)
  have env: "env_lawful env" using assms(5) by (simp add: fresh_step_ok_def)
  obtain peer e g l where s1: "relay_wf s1"
    and entry: "peers s1 from = Some peer" "peer_games peer (RemoteGameId (rgm_id gm)) = Some e"
    and g: "im_map (games s1) (rg_local_game_id e) = Some (Remote g)" "rgame_peer_id g = from" "rgame_listener g = Some l"
    and p: "parse N (take MAX_PACKET_SIZE d) = Ok \<lparr>dp_port = addr_port (rgl_addr l), dp_motd = rgm_motd gm\<rparr>"
    by (rule advertised_listener[OF assms(1) env assms(3,4,6,7)])
  have "relay_inv (unat (next_key (games s))) s" using assms(1) by (simp add: relay_inv_def)
  then have "wf_ports s'"
    using port_loop.run_inv[of "unat (next_key (games s))" s "?m # ms"] assms(2,3,5,8) m
    by (auto simp: keys_left_def run_def)
  moreover have "discovery_port s' = discovery_port s"
    using run_discovery_port[OF assms(8)] handle_message_discovery_port[OF m] by simp
  ultimately have "add_local_game env' src (addr_port (rgl_addr l)) (rgm_motd gm) s' = (s', [])"
    if "im_map (games s') i' = Some (Remote g')" "rgame_listener g' = Some l'" "addr_port (rgl_addr l') = addr_port (rgl_addr l)" for i' g' l'
    using listener_port_recorded[OF _ that(1,2)] that(3) assms(9) by (simp add: add_local_game_def)
  moreover note unrecorded_port_taken[OF removed_peer_port[OF s1 assms(10) entry g(1,3)]]
  ultimately show ?thesis
    using p g
    by (intro exI[of _ "\<lparr>dp_port = addr_port (rgl_addr l), dp_motd = rgm_motd gm\<rparr>"]
        exI[of _ "rg_local_game_id e"] exI[of _ g] exI[of _ l]) auto
qed

text \<open>What a relay with two peers does with the first game advertised by one of them.\<close>

definition first_game :: relay_game where
  "first_game = \<lparr>rgm_id = 7, rgm_motd = [65], rgm_hops = 0\<rparr>"

lemma packet_text_example:
  "packet_text \<lparr>dp_port = 40000, dp_motd = [65]\<rparr> = ascii ''[MOTD]A[/MOTD][AD]40000[/AD]''"
  by (simp add: packet_text_def fmt_u16_def decimal.simps)

lemma first_game_handled:
  "\<exists>s' eff. handle_game env_ref peer_a first_game two_peers = Some (s', eff)
    \<and> SendDatagram (ascii ''[MOTD]A[/MOTD][AD]40000[/AD]'') \<in> set eff"
  unfolding packet_text_example[symmetric]
  by (simp add: handle_game_def add_game_def next_id_def first_game_def Peer_new_def id_map_default_def
      check_listener_def start_listener_def advertise_def send_eq env_ref_def slice_ref.slice_writer_axioms
      Let_def split: prod.split)

theorem own_advertisement_ignored_witness:
  "\<exists>s' eff p. handle_game env_ref peer_a first_game two_peers = Some (s', eff)
    \<and> parse nom_ref (take MAX_PACKET_SIZE (ascii ''[MOTD]A[/MOTD][AD]40000[/AD]'')) = Ok p
    \<and> add_local_game env_ref (V4 1 5000) (dp_port p) (dp_motd p) s' = (s', [])
    \<and> V4 1 (dp_port p) \<in> dom (local_games (fst (add_local_game env_ref (V4 1 5000) (dp_port p) (dp_motd p) (remove_peer env_ref peer_a s'))))"
proof -
  obtain s' eff where h: "handle_game env_ref peer_a first_game two_peers = Some (s', eff)"
    "SendDatagram (ascii ''[MOTD]A[/MOTD][AD]40000[/AD]'') \<in> set eff"
    using first_game_handled by blast
  have ok: "inputs_ok handle_message fresh_step_ok [(env_ref, Recv peer_a \<lparr>inner = Some (Game first_game)\<rparr>)] two_peers"
    by (simp add: fresh_step_ok_def env_lawful_ref fresh_two_peers split: option.split)
  have run: "run [] s' = Some (s', [])" by (simp add: run_def)
  from own_advertisement_ignored[OF wf_two_peers wf_ports_two_peers _ nom_ref.nom_parsers_axioms ok h run _ env_lawful_ref,
      of "V4 1 5000" env_ref] room_two_peers
  show ?thesis using h(1) by fastforce
qed

lemma advertisement_cause:
  assumes "handle_message (env, m) s = Some (s', eff)" "SendPeer h \<lparr>inner = Some (Game gm)\<rparr> \<in> set eff"
  obtains (local) src port motd where "m = AddLocalGame src port motd"
  | (game) p gm0 where "m = Recv p \<lparr>inner = Some (Game gm0)\<rparr>"
proof (cases m)
  case (AcceptGameConnection i c)
  with assms show thesis
    by (auto simp: accept_game_connection_def Let_def split: option.splits game.splits if_splits)
next
  case (AddGameConnection p c i tx)
  with assms show thesis by (auto simp: add_game_connection_def Let_def split: option.splits if_splits)
next
  case (Recv p m')
  show thesis
  proof (cases "inner m'")
    case None
    with Recv assms show thesis by (simp add: handle_peer_message_def)
  next
    case (Some r)
    show thesis
    proof (cases r)
      case (Game gm0)
      then have "m' = \<lparr>inner = Some (Game gm0)\<rparr>" using Some by simp
      with Recv game show thesis by blast
    next
      case (Connect cm)
      then obtain to r where "forward_connect env p to r cm s = Some (s', eff)"
        using assms Recv Some
        by (auto simp: handle_peer_message_def handle_connect_def connect_local_def Let_def split: option.splits game.splits)
      from forward_connect_msg[OF this assms(2)] show thesis by simp
    next
      case (Data dm)
      then have "handle_data env p dm s = (s', eff)" using assms(1) Recv Some by (simp add: handle_peer_message_def)
      then show thesis using assms(2) by (auto simp: handle_data_def Let_def split: option.splits if_splits)
    next
      case (CloseConnection cm)
      then show thesis using assms Recv Some by (simp add: handle_peer_message_def)
    qed
  qed
next
  case (RemoveGameListener i)
  with assms show thesis by (auto simp: remove_game_listener_def split: option.splits game.splits if_splits)
qed (use assms local in auto)

lemma add_local_game_game:
  assumes "relay_wf s" "env_lawful env" "keys_left (games s) (Suc n)"
    and "addr_port src \<noteq> discovery_port s \<or> port \<notin> listen_ports s"
    and "add_local_game env src port motd s = (s', eff)" "SendPeer h \<lparr>inner = Some (Game gm)\<rparr> \<in> set eff"
  shows "rgm_motd gm = motd
    \<and> im_map (games s') (LocalGameId (rgm_id gm)) = Some (Local \<lparr>lgame_addr = set_port src port\<rparr>)"
proof -
  obtain i s1 errors where entry: "local_game_entry (set_port src port) s = (i, s1)"
    and send: "send_each env \<lparr>inner = Some (Game \<lparr>rgm_id = lg_u64 i, rgm_motd = motd, rgm_hops = 0\<rparr>)\<rparr>
      (peers s1) (filter (\<lambda>p. Some p \<noteq> None) (iter_peers env (peers s1))) = (eff, errors)"
    and s': "s' = remove_peers env errors s1"
    using add_local_game_eq[OF assms(4,5)] by blast
  let ?m = "\<lparr>inner = Some (Game \<lparr>rgm_id = lg_u64 i, rgm_motd = motd, rgm_hops = 0\<rparr>)\<rparr>"
  have "SendPeer h \<lparr>inner = Some (Game gm)\<rparr> \<in> set (fst (send_each env ?m (peers s1)
      (filter (\<lambda>p. Some p \<noteq> None) (iter_peers env (peers s1)))))"
    unfolding send using assms(6) by simp
  then have "\<lparr>inner = Some (Game gm)\<rparr> = ?m" by (rule send_each_msg)
  moreover have "relay_wf s'" by (rule add_local_game_ok[OF assms(1-3,5)])
  moreover have "local_games s' (set_port src port) = Some i"
    using local_game_entry_props(2)[OF entry] by (simp add: s' relay_frame)
  ultimately show ?thesis
    using relay_wfD(4) by (fastforce simp: wf_local_games_def)
qed

lemma handle_game_game:
  assumes "relay_wf s" "env_lawful env" "keys_left (games s) (Suc n)"
    and "handle_game env from gm0 s = Some (s', eff)" "SendPeer h \<lparr>inner = Some (Game gm)\<rparr> \<in> set eff"
  shows "rgm_motd gm = rgm_motd gm0 \<and> (\<exists>g. im_map (games s') (LocalGameId (rgm_id gm)) = Some (Remote g)
    \<and> rgame_peer_id g = from \<and> rgame_remote_game_id g = RemoteGameId (rgm_id gm0))"
proof (cases "peers s from")
  case None
  then show ?thesis using assms(4,5) by (simp add: handle_game_def add_game_def)
next
  case (Some peer)
  obtain s1 s1' listened adv fwd e g where h: "handle_game env from gm0 s = Some (s1', listened @ adv @ fwd)"
    and add: "add_game env from gm0 s = Some (s1, listened @ adv, Some e)"
    and fwd: "forward_game env from (rg_local_game_id e) gm0 s1 = (s1', fwd)"
    and g: "im_map (games s1') (rg_local_game_id e) = Some (Remote g)"
      "rgame_peer_id g = from" "rgame_remote_game_id g = RemoteGameId (rgm_id gm0)"
    by (rule handle_game_known[OF assms(1-3) Some, of gm0]) (rule that; assumption)
  have "s1' = s'" "eff = (listened @ adv) @ fwd" using h assms(4) by simp_all
  moreover have "SendPeer h \<lparr>inner = Some (Game gm)\<rparr> \<notin> set (listened @ adv)"
    by (rule add_game_quiet[OF add])
  ultimately have "SendPeer h \<lparr>inner = Some (Game gm)\<rparr> \<in> set (snd (forward_game env from (rg_local_game_id e) gm0 s1))"
    using assms(5) fwd by auto
  from forward_game_msg[OF this] have "gm = \<lparr>rgm_id = lg_u64 (rg_local_game_id e), rgm_motd = rgm_motd gm0, rgm_hops = rgm_hops gm0 + 1\<rparr>"
    by simp
  with g \<open>s1' = s'\<close> show ?thesis by simp
qed

text \<open>
  C11: every advertisement a relay sends out resolves on it. Handling a message, an advertisement is
  sent only for a game of the LAN or for a game a peer advertised, and the id it carries leads, in the
  state after the message, to that very game.
\<close>

theorem advertised_game_resolves:
  assumes "relay_wf s" "env_lawful env" "keys_left (games s) (Suc n)"
    and "handle_message (env, m) s = Some (s', eff)"
    and "SendPeer h \<lparr>inner = Some (Game gm)\<rparr> \<in> set eff"
  shows "(\<exists>src port. m = AddLocalGame src port (rgm_motd gm)
        \<and> im_map (games s') (LocalGameId (rgm_id gm)) = Some (Local \<lparr>lgame_addr = set_port src port\<rparr>))
    \<or> (\<exists>p gm0 g. m = Recv p \<lparr>inner = Some (Game gm0)\<rparr> \<and> rgm_motd gm = rgm_motd gm0
        \<and> im_map (games s') (LocalGameId (rgm_id gm)) = Some (Remote g)
        \<and> rgame_peer_id g = p \<and> rgame_remote_game_id g = RemoteGameId (rgm_id gm0))"
proof -
  consider (local) src port motd where "m = AddLocalGame src port motd"
    | (game) p gm0 where "m = Recv p \<lparr>inner = Some (Game gm0)\<rparr>"
    using assms(4,5) by (rule advertisement_cause)
  then show ?thesis
  proof cases
    case local
    then have add: "add_local_game env src port motd s = (s', eff)" using assms(4) by simp
    have "addr_port src \<noteq> discovery_port s \<or> port \<notin> listen_ports s"
      using add assms(5) by (auto simp: add_local_game_def)
    from add_local_game_game[OF assms(1-3) this add assms(5)] local show ?thesis by blast
  next
    case game
    then have "handle_game env p gm0 s = Some (s', eff)" using assms(4) by (simp add: handle_peer_message_def)
    from handle_game_game[OF assms(1-3) this assms(5)] game show ?thesis by blast
  qed
qed

theorem advertised_game_resolves_witness:
  "\<exists>s' eff. handle_message (env_ref, AddLocalGame (V4 1 4445) 25565 [65]) two_peers = Some (s', eff)
    \<and> im_map (games s') (LocalGameId 0) = Some (Local \<lparr>lgame_addr = V4 1 25565\<rparr>)"
proof -
  let ?gm = "\<lparr>rgm_id = 0, rgm_motd = [65], rgm_hops = 0\<rparr>"
  obtain s' eff where h: "handle_message (env_ref, AddLocalGame (V4 1 4445) 25565 [65]) two_peers = Some (s', eff)"
    by (cases "add_local_game env_ref (V4 1 4445) 25565 [65] two_peers") simp
  have "send_each env_ref m (peers two_peers) [peer_a, peer_b] = ([SendPeer (RelayConnectionHandle 1) m,
      SendPeer (RelayConnectionHandle 2) m], [])" for m
    by (simp add: Peer_new_def)
  then have "SendPeer (RelayConnectionHandle 1) \<lparr>inner = Some (Game ?gm)\<rparr> \<in> set eff"
    using h by (auto simp: add_local_game_def Let_def Id_Map.add_def next_id_def id_map_default_def iter_two_peers simp del: env_ref_simps split: prod.splits)
  from advertised_game_resolves[OF wf_two_peers env_lawful_ref room_two_peers h this] h
  show ?thesis by auto
qed


section \<open>Connections\<close>

lemma next_id_unflagged:
  assumes "relay_wf s" "peers s p = Some peer"
  shows "ConnectionId (cid_id (next_connection_id peer)) False = next_connection_id peer"
  using relay_wfD(5)[OF assms(1)] assms(2) by (cases "next_connection_id peer") (force simp: wf_flags_def)

end
