(* ===== verification/Relay_Routing.thy ===== *)
theory Relay_Routing
  imports Relay_Props
begin

text \<open>
  Connections that pass through a relay, the removal of peers, and the games of the LAN. A connection
  forwarded from one peer to another carries data both ways with the ids translated, until one side
  closes it; removing a peer removes what it advertised and nothing else; the id of a game of the LAN
  never changes. The last section shows where the bookkeeping goes wrong: ids chosen by the two ends
  of a link are not told apart, a close is not passed on, and a peer that reconnects is confused with
  its former connection.
\<close>

section \<open>Connections between two peers\<close>

text \<open>What a successful \<open>forward_connect\<close> between two different peers does.\<close>

lemma forward_connect_sent:
  assumes "forward_connect env from to r cm s = Some (s', eff)" "eff \<noteq> []"
  obtains a b where "peers s from = Some a" "peers s to = Some b"
    and "rc_hops cm < MAX_FORWARDING_HOPS" "send_ok env (peer_handle b)"
    and "relayed_connections a (ConnectionId (rc_connection_id cm) False) = None"
    and "eff = [SendPeer (peer_handle b) \<lparr>inner = Some (Connect \<lparr>rc_game_id = rg_u64 r,
           rc_connection_id = cid_id (next_connection_id b), rc_hops = rc_hops cm + 1\<rparr>)\<rparr>]"
    and "from \<noteq> to \<Longrightarrow> s' = s\<lparr>peers := (peers s)
      (to \<mapsto> b\<lparr>next_connection_id := ConnectionId (cid_id (next_connection_id b) + 1) (cid_local (next_connection_id b)),
              relayed_connections := (relayed_connections b)(next_connection_id b \<mapsto>
                \<lparr>rcn_peer = from, rcn_peer_connection_id = ConnectionId (rc_connection_id cm) False\<rparr>)\<rparr>,
       from \<mapsto> a\<lparr>relayed_connections := (relayed_connections a)(ConnectionId (rc_connection_id cm) False \<mapsto>
                \<lparr>rcn_peer = to, rcn_peer_connection_id = next_connection_id b\<rparr>)\<rparr>)\<rparr>"
  using assms by (auto simp: forward_connect_def Let_def not_le split: if_splits option.splits)

text \<open>
  C5: a connection forwarded between two peers carries data both ways. When \<open>from\<close> asks for a
  connection under its own id and the request is passed on to \<open>to\<close> under a new id, then, as long as
  neither id is that of a connection ending on this host, data from \<open>from\<close> under its id is sent to
  \<open>to\<close> under the new id, and data from \<open>to\<close> under the new id is sent to \<open>from\<close> under its id.
\<close>

theorem relayed_connection_routes:
  assumes "relay_wf s" "from \<noteq> to"
    and "forward_connect env from to r cm s = Some (s', [SendPeer h m])"
    and "peers s from = Some a" "peers s to = Some b"
    and "send_ok env' (peer_handle a)" "send_ok env' (peer_handle b)"
    and "local_connections a (ConnectionId (rc_connection_id cm) False) = None"
    and "local_connections b (next_connection_id b) = None"
  shows "\<exists>k. h = peer_handle b
    \<and> m = \<lparr>inner = Some (Connect \<lparr>rc_game_id = rg_u64 r, rc_connection_id = k, rc_hops = rc_hops cm + 1\<rparr>)\<rparr>
    \<and> handle_data env' from \<lparr>rd_connection_id = rc_connection_id cm, rd_connection_local = False, rd_data = d\<rparr> s'
        = (s', [SendPeer (peer_handle b) \<lparr>inner = Some (Data
                 \<lparr>rd_connection_id = k, rd_connection_local = False, rd_data = d\<rparr>)\<rparr>])
    \<and> handle_data env' to \<lparr>rd_connection_id = k, rd_connection_local = False, rd_data = d\<rparr> s'
        = (s', [SendPeer (peer_handle a) \<lparr>inner = Some (Data
                 \<lparr>rd_connection_id = rc_connection_id cm, rd_connection_local = False, rd_data = d\<rparr>)\<rparr>])"
proof -
  have flag: "ConnectionId (cid_id (next_connection_id b)) False = next_connection_id b"
    "\<not> cid_local (next_connection_id b)"
    using next_id_unflagged[OF assms(1,5)] by (simp, metis connection_id.sel(2))
  show ?thesis
    by (rule forward_connect_sent[OF assms(3)], simp, rule exI[of _ "cid_id (next_connection_id b)"])
      (use assms(2,4-) flag in \<open>simp add: handle_data_def Let_def\<close>)
qed

text \<open>A relay with two peers after the first of them has advertised a game that has not been named yet.\<close>

definition game_of_a :: "relay" where
  "game_of_a = fst (the (handle_game env_ref peer_a first_game two_peers))"

lemma game_of_a:
  "game_of_a = \<lparr>peers = [peer_a \<mapsto> (Peer_new (RelayConnectionHandle 1))\<lparr>peer_games :=
        [RemoteGameId 7 \<mapsto> \<lparr>rg_local_game_id = LocalGameId 0\<rparr>]\<rparr>, peer_b \<mapsto> Peer_new (RelayConnectionHandle 2)],
     games = \<lparr>im_map = [LocalGameId 0 \<mapsto> Remote \<lparr>rgame_peer_id = peer_a, rgame_remote_game_id = RemoteGameId 7,
       rgame_listener = Some \<lparr>rgl_handle = GameListenerHandle 0, rgl_addr = V4 0 40000\<rparr>\<rparr>], next_key = 1\<rparr>,
     local_games = Map.empty, listen_ports = {40000}, discovery_port = 5000\<rparr>"
proof -
  have two: "two_peers = \<lparr>peers = [peer_a \<mapsto> Peer_new (RelayConnectionHandle 1), peer_b \<mapsto> Peer_new (RelayConnectionHandle 2)],
      games = id_map_default, local_games = Map.empty, listen_ports = {}, discovery_port = 5000\<rparr>"
    by (rule relay.equality) simp_all
  have order: "[peer_b \<mapsto> x, peer_a \<mapsto> y] = [peer_a \<mapsto> y, peer_b \<mapsto> x]" for x y
    by (rule fun_upd_twist) simp
  have "add_game env_ref peer_a first_game two_peers = Some (game_of_a', eff, Some \<lparr>rg_local_game_id = LocalGameId 0\<rparr>)"
    if "game_of_a' = \<lparr>peers = [peer_a \<mapsto> (Peer_new (RelayConnectionHandle 1))\<lparr>peer_games :=
        [RemoteGameId 7 \<mapsto> \<lparr>rg_local_game_id = LocalGameId 0\<rparr>]\<rparr>, peer_b \<mapsto> Peer_new (RelayConnectionHandle 2)],
     games = \<lparr>im_map = [LocalGameId 0 \<mapsto> Remote \<lparr>rgame_peer_id = peer_a, rgame_remote_game_id = RemoteGameId 7,
       rgame_listener = Some \<lparr>rgl_handle = GameListenerHandle 0, rgl_addr = V4 0 40000\<rparr>\<rparr>], next_key = 1\<rparr>,
     local_games = Map.empty, listen_ports = {40000}, discovery_port = 5000\<rparr>"
     "eff = [SpawnListener (LocalGameId 0) \<lparr>gl_local_addr = V4 0 40000, gl_keepalive = GameListenerHandle 0\<rparr>,
       SendDatagram (packet_text \<lparr>dp_port = 40000, dp_motd = [65]\<rparr>)]" for game_of_a' eff
    unfolding that two
    by (simp add: add_game_def next_id_def first_game_def Peer_new_def id_map_default_def order
      check_listener_def start_listener_def advertise_def send_eq env_ref_def slice_ref.slice_writer_axioms Let_def)
  then show ?thesis
    unfolding game_of_a_def handle_game_def
    by (simp add: forward_game_def first_game_def MAX_FORWARDING_HOPS_def iter_two_peers Peer_new_def
        remove_peers_def Let_def del: env_ref_simps(5))
qed

lemma wf_game_of_a: "relay_wf game_of_a"
  using handle_game_ok[OF wf_two_peers env_lawful_ref room_two_peers, of peer_a first_game]
  by (auto simp: game_of_a_def)

theorem relayed_connection_routes_witness:
  "\<exists>s' h m k. handle_connect env_ref peer_b \<lparr>rc_game_id = 0, rc_connection_id = 3, rc_hops = 0\<rparr> game_of_a = Some (s', [SendPeer h m])
    \<and> handle_data env_ref peer_b \<lparr>rd_connection_id = 3, rd_connection_local = False, rd_data = [1]\<rparr> s'
        = (s', [SendPeer (RelayConnectionHandle 1) \<lparr>inner = Some (Data
                 \<lparr>rd_connection_id = k, rd_connection_local = False, rd_data = [1]\<rparr>)\<rparr>])"
proof -
  let ?cm = "\<lparr>rc_game_id = 0, rc_connection_id = 3, rc_hops = 0\<rparr>"
  obtain s' h m where f: "forward_connect env_ref peer_b peer_a (RemoteGameId 7) ?cm game_of_a = Some (s', [SendPeer h m])"
    by (simp add: game_of_a forward_connect_def Let_def Peer_new_def MAX_FORWARDING_HOPS_def)
  then have "handle_connect env_ref peer_b ?cm game_of_a = Some (s', [SendPeer h m])"
    by (simp add: handle_connect_def game_of_a)
  then show ?thesis
    using relayed_connection_routes[OF wf_game_of_a _ f, of "Peer_new (RelayConnectionHandle 2)"
        "(Peer_new (RelayConnectionHandle 1))\<lparr>peer_games := [RemoteGameId 7 \<mapsto> \<lparr>rg_local_game_id = LocalGameId 0\<rparr>]\<rparr>"
        env_ref "[1]"]
    by (auto simp: game_of_a Peer_new_def)
qed


lemma wf_ports_game_of_a: "wf_ports game_of_a"
  by (auto simp: game_of_a wf_ports_def ports_ok_def port_of_def split: if_splits)

lemma port_of_Some:
  "port_of m i = Some q \<longleftrightarrow> (\<exists>g l. m i = Some (Remote g) \<and> rgame_listener g = Some l \<and> addr_port (rgl_addr l) = q)"
  by (cases "m i"; cases "the (m i)") (auto simp: port_of_def)

lemma wf_ports_iff:
  assumes "wf_ports s"
  shows "q \<in> listen_ports s \<longleftrightarrow> (\<exists>i g l. im_map (games s) i = Some (Remote g) \<and> rgame_listener g = Some l
    \<and> addr_port (rgl_addr l) = q)"
  using assms by (simp add: wf_ports_def ports_ok_def port_of_Some)

lemma forward_connect_total: "\<exists>x. forward_connect env from to r cm s = Some x"
  by (auto simp: forward_connect_def Let_def split: option.split)

text \<open>
  Forwarding a connection request never reaches the \<open>unreachable!()\<close> in \<open>forward_connect\<close>,
  in whatever state and even when a peer asks for its own game.
\<close>

theorem forward_connect_no_panic: "\<exists>s' eff. forward_connect env from to r cm s = Some (s', eff)"
  using forward_connect_total by fastforce

text \<open>
  C37: closing a connection that passes through the relay removes both of its directions: data that
  either side still sends under its id is dropped. Nothing is sent to the other side, which
  therefore never learns that the connection is closed.
\<close>

theorem close_is_silent:
  assumes "from \<noteq> to" "peers s from = Some a" "peers s to = Some b"
    and "relayed_connections a c = Some \<lparr>rcn_peer = to, rcn_peer_connection_id = c'\<rparr>"
    and "local_connections b c' = None"
  shows "\<exists>s'. handle_peer_message env from \<lparr>inner = Some (CloseConnection
            \<lparr>rcc_connection_id = cid_id c, rcc_connection_local = cid_local c\<rparr>)\<rparr> s = Some (s', [])
    \<and> handle_data env' from \<lparr>rd_connection_id = cid_id c, rd_connection_local = cid_local c, rd_data = d\<rparr> s' = (s', [])
    \<and> handle_data env' to \<lparr>rd_connection_id = cid_id c', rd_connection_local = cid_local c', rd_data = d\<rparr> s' = (s', [])"
  using assms
  by (simp add: handle_peer_message_def handle_close_connection_def handle_data_def Let_def)

theorem close_is_silent_witness:
  "\<exists>s s'. handle_connect env_ref peer_b \<lparr>rc_game_id = 0, rc_connection_id = 3, rc_hops = 0\<rparr> game_of_a = Some s
    \<and> handle_peer_message env_ref peer_b \<lparr>inner = Some (CloseConnection
            \<lparr>rcc_connection_id = 3, rcc_connection_local = False\<rparr>)\<rparr> (fst s) = Some (s', [])
    \<and> handle_data env_ref peer_a \<lparr>rd_connection_id = 0, rd_connection_local = False, rd_data = [1]\<rparr> s' = (s', [])"
proof -
  let ?s = "the (handle_connect env_ref peer_b \<lparr>rc_game_id = 0, rc_connection_id = 3, rc_hops = 0\<rparr> game_of_a)"
  have s: "handle_connect env_ref peer_b \<lparr>rc_game_id = 0, rc_connection_id = 3, rc_hops = 0\<rparr> game_of_a = Some ?s"
    using forward_connect_total[of env_ref peer_b peer_a "RemoteGameId 7"
        "\<lparr>rc_game_id = 0, rc_connection_id = 3, rc_hops = 0\<rparr>" game_of_a]
    by (auto simp: handle_connect_def game_of_a)
  obtain a b where "peers (fst ?s) peer_b = Some a" "peers (fst ?s) peer_a = Some b"
    "relayed_connections a (ConnectionId 3 False) = Some \<lparr>rcn_peer = peer_a, rcn_peer_connection_id = ConnectionId 0 False\<rparr>"
    "local_connections b (ConnectionId 0 False) = None"
    by (simp add: handle_connect_def game_of_a forward_connect_def Let_def Peer_new_def MAX_FORWARDING_HOPS_def
        connection_id_default_def)
  from close_is_silent[OF _ this, of env_ref env_ref "[1]"] s show ?thesis
    by (intro exI[of _ ?s]) auto
qed

section \<open>Removing a peer\<close>

lemma listen_ports_remove_peer:
  assumes "relay_wf s" "env_lawful env"
  shows "listen_ports (remove_peer env p s) = listen_ports s - {addr_port (rgl_addr l) | peer r e g l.
      peers s p = Some peer \<and> peer_games peer r = Some e \<and> im_map (games s) (rg_local_game_id e) = Some (Remote g)
      \<and> rgame_listener g = Some l}"
proof (cases "peers s p")
  case (Some peer)
  have "ports_at (im_map (games s)) (game_ids_of peer) = {addr_port (rgl_addr l) | r e g l. peer_games peer r = Some e
      \<and> im_map (games s) (rg_local_game_id e) = Some (Remote g) \<and> rgame_listener g = Some l}"
    by (fastforce simp: ports_at_def game_ids_of_def ran_def port_of_Some)
  then show ?thesis
    by (simp add: remove_peer_Some[OF Some env_iter_games[OF assms(2) relay_wfD(1)[OF assms(1)] Some]] Some)
qed (simp add: remove_peer_None)

text \<open>
  C14: removing a peer removes the peer, exactly the games its entries lead to, and from the ports to
  be ignored in discovery exactly those of the listeners of these games; other peers and their games
  are untouched. So if the ports were exactly those of the games' listeners before, they are afterwards.
\<close>

theorem remove_peer_exact:
  assumes "relay_wf s" "env_lawful env"
  shows "peers (remove_peer env p s) = (peers s)(p := None)
    \<and> (\<forall>i. im_map (games (remove_peer env p s)) i =
          (if \<exists>peer r. peers s p = Some peer \<and> map_option rg_local_game_id (peer_games peer r) = Some i
           then None else im_map (games s) i))
    \<and> listen_ports (remove_peer env p s) = listen_ports s - {addr_port (rgl_addr l) | peer r e g l.
          peers s p = Some peer \<and> peer_games peer r = Some e \<and> im_map (games s) (rg_local_game_id e) = Some (Remote g)
          \<and> rgame_listener g = Some l}
    \<and> (wf_ports s \<longrightarrow> (\<forall>q. q \<in> listen_ports (remove_peer env p s) \<longleftrightarrow>
          (\<exists>i g l. im_map (games (remove_peer env p s)) i = Some (Remote g) \<and> rgame_listener g = Some l
             \<and> addr_port (rgl_addr l) = q)))
    \<and> local_games (remove_peer env p s) = local_games s"
proof -
  let ?s = "remove_peer env p s"
  have "im_map (games ?s) i =
      (if \<exists>peer r. peers s p = Some peer \<and> map_option rg_local_game_id (peer_games peer r) = Some i
       then None else im_map (games s) i)" for i
  proof (cases "peers s p")
    case None
    then show ?thesis by (simp add: remove_peer_None)
  next
    case (Some peer)
    have "i \<in> game_ids_of peer \<longleftrightarrow> (\<exists>r. map_option rg_local_game_id (peer_games peer r) = Some i)"
      by (force simp: game_ids_of_def ran_def)
    then show ?thesis
      by (auto simp add: Some remove_peer_Some[OF Some env_iter_games[OF assms(2) relay_wfD(1)[OF assms(1)] Some]]
          restrict_map_def)
  qed
  moreover have "q \<in> listen_ports ?s \<longleftrightarrow> (\<exists>i g l. im_map (games ?s) i = Some (Remote g) \<and> rgame_listener g = Some l
      \<and> addr_port (rgl_addr l) = q)" if "wf_ports s" for q
    using wf_ports_remove_peer[OF that relay_wfD(1)[OF assms(1)] assms(2)] by (rule wf_ports_iff)
  moreover note listen_ports_remove_peer[OF assms, of p]
  ultimately show ?thesis by (simp add: relay_frame)
qed

theorem remove_peer_exact_witness:
  "im_map (games (remove_peer env_ref peer_a game_of_a)) (LocalGameId 0) = None"
proof -
  have "\<exists>peer r. peers game_of_a peer_a = Some peer \<and> map_option rg_local_game_id (peer_games peer r) = Some (LocalGameId 0)"
    by (intro exI[of _ "the (peers game_of_a peer_a)"] exI[of _ "RemoteGameId 7"]) (simp add: game_of_a)
  then show ?thesis
    using remove_peer_exact[OF wf_game_of_a env_lawful_ref, of peer_a] by simp
qed

section \<open>Games of the LAN\<close>

lemma handle_message_local_games:
  assumes "handle_message (env, m) s = Some (s', eff)"
  shows "local_games s \<subseteq>\<^sub>m local_games s'"
proof (cases m)
  case (AddLocalGame src port motd)
  show ?thesis
  proof (cases "addr_port src \<noteq> discovery_port s \<or> port \<notin> listen_ports s")
    case True
    then obtain i s1 errors where "local_game_entry (set_port src port) s = (i, s1)" "s' = remove_peers env errors s1"
      using add_local_game_eq[OF True] assms AddLocalGame by (metis handle_message.simps(4) option.inject)
    then show ?thesis using local_game_entry_props(6) by (simp add: relay_frame)
  next
    case False
    then show ?thesis using assms AddLocalGame by (simp add: add_local_game_def)
  qed
next
  case (Recv p m')
  have "local_games s' = local_games s"
  proof (cases "\<exists>gm. inner m' = Some (Game gm)")
    case True
    then obtain gm where "handle_game env p gm s = Some (s', eff)"
      using assms Recv by (auto simp: handle_peer_message_def)
    then show ?thesis
    proof (cases rule: handle_gameE)
      case dropped
      then show ?thesis by (rule add_game_frame)
    next
      case (forwarded s1 added e fwd)
      have "local_games s' = local_games s1"
        using forward_game_state[of env p "rg_local_game_id e" gm s1] forwarded(2) by (auto simp: relay_frame)
      then show ?thesis using add_game_frame(2)[OF forwarded(1)] by simp
    qed
  next
    case False
    then show ?thesis
      using assms Recv
      by (auto simp: handle_peer_message_def handle_connect_def forward_connect_def connect_local_def handle_data_def
          handle_close_connection_def Let_def relay_frame split: option.splits relay_inner.splits game.splits if_splits)
  qed
  then show ?thesis by simp
qed (use assms in \<open>auto simp: accept_game_connection_def add_game_connection_def add_peer_def remove_game_listener_def
      Let_def relay_frame split: option.splits game.splits if_splits\<close>)

interpretation local_game: counted_loop handle_message step_ok "\<lambda>n. n + 1 < 2 ^ 64"
  "\<lambda>n s. relay_inv n s \<and> local_games s a = Some i" for a i
proof
  fix n s and m :: "relay_env \<times> message"
  assume inv: "relay_inv n s \<and> local_games s a = Some i" and "n + 1 < 2 ^ 64" "step_ok m s"
  then obtain s' out where step: "handle_message m s = Some (s', out)" "relay_inv (Suc n) s'"
    using relay_loop.step_inv by blast
  have "local_games s' a = Some i"
    using handle_message_local_games[of "fst m" "snd m" s s' out] step(1) inv by (auto simp: map_le_def dom_def)
  with step show "\<exists>s' out. handle_message m s = Some (s', out) \<and> relay_inv (Suc n) s' \<and> local_games s' a = Some i"
    by blast
qed

lemma local_game_kept:
  assumes "relay_inv n s" "local_games s a = Some i" "inputs_ok handle_message step_ok ms s" "n + length ms < 2 ^ 64"
  shows "\<exists>s' eff. run ms s = Some (s', eff) \<and> local_games s' a = Some i \<and> im_map (games s') i = Some (Local \<lparr>lgame_addr = a\<rparr>)"
proof -
  obtain s' eff where s': "run ms s = Some (s', eff)" "relay_wf s'" "local_games s' a = Some i"
    using local_game.run_inv[of n s a i ms] assms by (auto simp: run_def relay_inv_def)
  with relay_wfD(4)[OF s'(2)] show ?thesis by (auto simp: wf_local_games_def)
qed

text \<open>A game that is announced from another port than that of the relay's own sender is listed, and stays.\<close>

lemma announced_game_listed:
  assumes "inputs_ok handle_message step_ok ms (Relay_new p)" "length ms < 2 ^ 64"
    and "(env, AddLocalGame src port motd) \<in> set ms" "addr_port src \<noteq> p" "run ms (Relay_new p) = Some (s', eff)"
  shows "\<exists>i. local_games s' (set_port src port) = Some i
    \<and> im_map (games s') i = Some (Local \<lparr>lgame_addr = set_port src port\<rparr>)"
proof -
  let ?m = "(env, AddLocalGame src port motd)" and ?a = "set_port src port"
  obtain ms1 ms2 where ms: "ms = (ms1 @ [?m]) @ ms2" using split_list[OF assms(3)] by auto
  obtain s1 eff1 where s1: "run ms1 (Relay_new p) = Some (s1, eff1)"
    using assms(5) unfolding ms run_def by (auto simp: run_loop_append split: option.splits)
  obtain s2 sent where add: "add_local_game env src port motd s1 = (s2, sent)" by fastforce
  have run: "run (ms1 @ [?m]) (Relay_new p) = Some (s2, eff1 @ sent)"
    using s1 add by (simp add: run_def run_loop_append)
  have ok: "inputs_ok handle_message step_ok (ms1 @ [?m]) (Relay_new p)" "inputs_ok handle_message step_ok ms2 s2"
    using assms(1) unfolding ms inputs_ok_append[OF run[unfolded run_def]] by blast+
  have len: "length (ms1 @ [?m]) + length ms2 < 2 ^ 64" using assms(2) unfolding ms by simp
  have inv: "relay_inv (length (ms1 @ [?m])) s2"
    using relay_loop.run_inv[OF relay_inv_new ok(1)] len run by (simp add: run_def)
  have "discovery_port s1 = p" using run_discovery_port[OF s1] by (simp add: Relay_new_def)
  then have far: "addr_port src \<noteq> discovery_port s1 \<or> port \<notin> listen_ports s1" using assms(4) by simp
  obtain i s3 errors where "local_game_entry ?a s1 = (i, s3)" "s2 = remove_peers env errors s3"
    using add_local_game_eq[OF far add] by blast
  then have "local_games s2 ?a = Some i" using local_game_entry_props(2) by (simp add: relay_frame)
  then obtain s'' eff' where "run ms2 s2 = Some (s'', eff')" "local_games s'' ?a = Some i"
    "im_map (games s'') i = Some (Local \<lparr>lgame_addr = ?a\<rparr>)"
    using local_game_kept[OF inv _ ok(2) len] by blast
  moreover have "s'' = s'"
    using assms(5) run calculation(1) unfolding ms run_def run_loop_append[of _ "ms1 @ [?m]"] by simp
  ultimately show ?thesis by blast
qed

text \<open>
  C15: the id under which a game of the LAN is advertised is permanent. Once a relay has given an
  address an id, after any further messages the address still has that id and the id still leads to
  that address, so that a peer that asks for the id is always connected to the same game.
\<close>

theorem local_game_permanent:
  assumes "inputs_ok handle_message step_ok (ms @ ms') (Relay_new port)" "length (ms @ ms') < 2 ^ 64"
    and "run ms (Relay_new port) = Some (s, eff)" "local_games s a = Some i"
  shows "\<exists>s' eff'. run ms' s = Some (s', eff') \<and> local_games s' a = Some i
    \<and> im_map (games s') i = Some (Local \<lparr>lgame_addr = a\<rparr>)"
proof -
  have ok: "inputs_ok handle_message step_ok ms (Relay_new port)" "inputs_ok handle_message step_ok ms' s"
    using inputs_ok_append[OF assms(3)[unfolded run_def]] assms(1) by simp_all
  have "relay_inv (length ms) s"
    using relay_loop.run_inv[OF relay_inv_new ok(1)] assms(2,3) by (simp add: run_def)
  from local_game_kept[OF this assms(4) ok(2)] assms(2) show ?thesis by simp
qed

theorem local_game_permanent_witness:
  "\<exists>s eff s' eff'. run [(env_ref, AddLocalGame (V4 1 4445) 25565 [])] (Relay_new 5000) = Some (s, eff)
    \<and> run [(env_ref, RemovePeer peer_a)] s = Some (s', eff') \<and> local_games s' (V4 1 25565) = Some (LocalGameId 0)
    \<and> im_map (games s') (LocalGameId 0) = Some (Local \<lparr>lgame_addr = V4 1 25565\<rparr>)"
proof -
  let ?m = "[(env_ref, AddLocalGame (V4 1 4445) 25565 [])]"
  obtain s eff where run: "run ?m (Relay_new 5000) = Some (s, eff)" "local_games s (V4 1 25565) = Some (LocalGameId 0)"
    by (simp add: run_def add_local_game_def Relay_new_def Let_def Id_Map.add_def next_id_def id_map_default_def
        remove_peers_def)
  have "inputs_ok handle_message step_ok (?m @ [(env_ref, RemovePeer peer_a)]) (Relay_new 5000)"
    by (simp add: step_ok_def env_lawful_ref fresh_port_def Relay_new_def add_local_game_def Let_def Id_Map.add_def
        next_id_def remove_peers_def split: option.split)
  from local_game_permanent[OF this _ run] run show ?thesis by auto
qed

section \<open>Where the bookkeeping fails\<close>

text \<open>
  C35: connection ids collide. An id this relay chose for a player's connection to a game of peer
  \<open>p\<close> and the same number chosen by \<open>p\<close> for a connection in the other direction are the same key,
  because the flag \<open>local\<close> of an id is never set. Once the connection asked for by \<open>p\<close> is up, data
  of \<open>p\<close> for the player's connection is queued for the other connection instead.
\<close>

theorem connection_ids_collide:
  assumes "relay_wf s" "im_map (games s) i = Some (Remote g)" "peers s (rgame_peer_id g) = Some peer"
    and "send_ok env (peer_handle peer)" "game_send_ok env' tx"
    and "accept_game_connection env i c s = (s1, SendPeer h \<lparr>inner = Some (Connect cm)\<rparr> # eff)"
    and "add_game_connection env (rgame_peer_id g) (ConnectionId (rc_connection_id cm) False) j tx s1 = (s2, eff')"
  shows "handle_data env' (rgame_peer_id g)
      \<lparr>rd_connection_id = rc_connection_id cm, rd_connection_local = False, rd_data = d\<rparr> s2
    = (s2, [SendGame tx d])"
  using assms(2-) next_id_unflagged[OF assms(1,3)]
  by (auto simp: accept_game_connection_def add_game_connection_def handle_data_def Let_def)

theorem connection_ids_collide_witness:
  "\<exists>s1 s2 h cm eff eff'. accept_game_connection env_ref (LocalGameId 0)
        \<lparr>gc_peer_addr = V4 9 9, gc_tx = GameConnectionHandle 4\<rparr> game_of_a
      = (s1, SendPeer h \<lparr>inner = Some (Connect cm)\<rparr> # eff)
    \<and> add_game_connection env_ref peer_a (ConnectionId (rc_connection_id cm) False) (LocalGameId 1)
        (GameConnectionHandle 5) s1 = (s2, eff')
    \<and> handle_data env_ref peer_a \<lparr>rd_connection_id = rc_connection_id cm, rd_connection_local = False, rd_data = [1]\<rparr> s2
      = (s2, [SendGame (GameConnectionHandle 5) [1]])"
proof -
  let ?c = "\<lparr>gc_peer_addr = V4 9 9, gc_tx = GameConnectionHandle 4\<rparr>"
  obtain s1 h cm eff where acc: "accept_game_connection env_ref (LocalGameId 0) ?c game_of_a
      = (s1, SendPeer h \<lparr>inner = Some (Connect cm)\<rparr> # eff)"
    by (simp add: accept_game_connection_def game_of_a Let_def)
  obtain s2 eff' where add: "add_game_connection env_ref peer_a (ConnectionId (rc_connection_id cm) False)
      (LocalGameId 1) (GameConnectionHandle 5) s1 = (s2, eff')"
    by fastforce
  let ?g = "\<lparr>rgame_peer_id = peer_a, rgame_remote_game_id = RemoteGameId 7,
      rgame_listener = Some \<lparr>rgl_handle = GameListenerHandle 0, rgl_addr = V4 0 40000\<rparr>\<rparr>"
  have "handle_data env_ref (rgame_peer_id ?g)
      \<lparr>rd_connection_id = rc_connection_id cm, rd_connection_local = False, rd_data = [1]\<rparr> s2
    = (s2, [SendGame (GameConnectionHandle 5) [1]])"
    by (rule connection_ids_collide[OF wf_game_of_a, where env = env_ref]) (use acc add in \<open>simp_all add: game_of_a\<close>)
  then show ?thesis using acc add by auto
qed

text \<open>
  C36: the same collision misroutes connections between peers. When \<open>to\<close> has a connection through
  this relay under the number the relay uses next towards \<open>to\<close>, forwarding a connection of \<open>from\<close>
  overwrites it, and what \<open>to\<close> sends on its own connection is delivered to \<open>from\<close>.
\<close>

theorem relayed_connection_overwritten:
  assumes "relay_wf s" "from \<noteq> to" "peers s from = Some a" "peers s to = Some b"
    and "relayed_connections b (next_connection_id b) = Some \<lparr>rcn_peer = other, rcn_peer_connection_id = c\<rparr>"
    and "local_connections b (next_connection_id b) = None" "send_ok env' (peer_handle a)"
    and "forward_connect env from to r cm s = Some (s', [SendPeer h m])"
  shows "handle_data env' to
      \<lparr>rd_connection_id = cid_id (next_connection_id b), rd_connection_local = False, rd_data = d\<rparr> s'
    = (s', [SendPeer (peer_handle a) \<lparr>inner = Some (Data
         \<lparr>rd_connection_id = rc_connection_id cm, rd_connection_local = False, rd_data = d\<rparr>)\<rparr>])"
  by (rule forward_connect_sent[OF assms(8)], simp)
    (use assms(2-) next_id_unflagged[OF assms(1,4)] in \<open>simp add: handle_data_def Let_def\<close>)

text \<open>The first of two peers has a connection, under its number 0, to a game of the second.\<close>

definition crossed :: relay where
  "crossed = fst (the (forward_connect env_ref peer_a peer_b (RemoteGameId 9)
     \<lparr>rc_game_id = 5, rc_connection_id = 0, rc_hops = 0\<rparr> game_of_a))"

lemma wf_crossed: "relay_wf crossed"
  using forward_connect_ok[OF wf_game_of_a env_lawful_ref, of peer_a peer_b "RemoteGameId 9"
      "\<lparr>rc_game_id = 5, rc_connection_id = 0, rc_hops = 0\<rparr>"]
  by (auto simp: crossed_def)

lemma crossed_peers:
  "\<exists>a b. peers crossed peer_b = Some a \<and> peers crossed peer_a = Some b
    \<and> relayed_connections b (next_connection_id b) = Some \<lparr>rcn_peer = peer_b, rcn_peer_connection_id = ConnectionId 0 False\<rparr>
    \<and> local_connections b (next_connection_id b) = None \<and> peer_handle a = RelayConnectionHandle 2
    \<and> cid_id (next_connection_id b) = 0
    \<and> (\<exists>s' h m. forward_connect env_ref peer_b peer_a (RemoteGameId 7)
          \<lparr>rc_game_id = 0, rc_connection_id = 8, rc_hops = 0\<rparr> crossed = Some (s', [SendPeer h m]))"
  by (simp add: crossed_def forward_connect_def game_of_a Let_def Peer_new_def MAX_FORWARDING_HOPS_def
      connection_id_default_def)

theorem relayed_connection_overwritten_witness:
  "\<exists>s' h m. forward_connect env_ref peer_b peer_a (RemoteGameId 7)
        \<lparr>rc_game_id = 0, rc_connection_id = 8, rc_hops = 0\<rparr> crossed = Some (s', [SendPeer h m])
    \<and> handle_data env_ref peer_a \<lparr>rd_connection_id = 0, rd_connection_local = False, rd_data = [1]\<rparr> s'
      = (s', [SendPeer (RelayConnectionHandle 2) \<lparr>inner = Some (Data
           \<lparr>rd_connection_id = 8, rd_connection_local = False, rd_data = [1]\<rparr>)\<rparr>])"
proof -
  obtain a b s' h m where p: "peers crossed peer_b = Some a" "peers crossed peer_a = Some b"
    "relayed_connections b (next_connection_id b) = Some \<lparr>rcn_peer = peer_b, rcn_peer_connection_id = ConnectionId 0 False\<rparr>"
    "local_connections b (next_connection_id b) = None"
    and h: "peer_handle a = RelayConnectionHandle 2" "cid_id (next_connection_id b) = 0"
    and f: "forward_connect env_ref peer_b peer_a (RemoteGameId 7)
      \<lparr>rc_game_id = 0, rc_connection_id = 8, rc_hops = 0\<rparr> crossed = Some (s', [SendPeer h m])"
    using crossed_peers by blast
  from relayed_connection_overwritten[OF wf_crossed _ p _ f, of env_ref "[1]"] f h show ?thesis by auto
qed

text \<open>
  C38: a peer that reconnects is lost together with what it advertised. The peer table is keyed by the
  peer's static key only: the removal sent when the old connection is dropped removes the entry of the
  new one. And replacing the entry has forgotten which games were the peer's own: the game is still in
  the table, and the port of its listener still ignored in discovery.
\<close>

theorem reconnected_peer_lost:
  assumes "relay_wf s" "env_lawful env" "im_map (games s) i = Some (Remote g)" "rgame_peer_id g = p"
    and "rgame_listener g = Some l" "wf_ports s"
  shows "\<exists>s'. run [(env, AddPeer p new), (env, RemovePeer p)] s = Some (s', []) \<and> peers s' p = None
    \<and> im_map (games s') i = Some (Remote g) \<and> addr_port (rgl_addr l) \<in> listen_ports s'"
proof -
  let ?s = "add_peer p new s"
  have wf: "relay_wf ?s" using assms(1) by (rule wf_add_peer)
  have peer: "peers ?s p = Some (Peer_new new)" by (simp add: add_peer_def)
  note eq = remove_peer_Some[OF peer env_iter_games[OF assms(2) relay_wfD(1)[OF wf] peer]]
  have "im_map (games (remove_peer env p ?s)) i = Some (Remote g)"
    using assms(3) unfolding eq by (simp add: add_peer_def game_ids_of_def Peer_new_def)
  moreover have "wf_ports ?s" using assms(6) by (simp add: add_peer_def)
  then have "wf_ports (remove_peer env p ?s)" by (rule wf_ports_remove_peer[OF _ relay_wfD(1)[OF wf] assms(2)])
  ultimately have "im_map (games (remove_peer env p ?s)) i = Some (Remote g)"
    "addr_port (rgl_addr l) \<in> listen_ports (remove_peer env p ?s)"
    using listener_port_recorded assms(5) by blast+
  moreover have "peers (remove_peer env p ?s) p = None" unfolding eq by simp
  ultimately show ?thesis by (simp add: run_def)
qed

theorem reconnected_peer_lost_witness:
  "\<exists>s'. run [(env_ref, AddPeer peer_a (RelayConnectionHandle 3)), (env_ref, RemovePeer peer_a)] game_of_a = Some (s', [])
    \<and> peers s' peer_a = None \<and> 40000 \<in> listen_ports s'"
  using reconnected_peer_lost[OF wf_game_of_a env_lawful_ref, of "LocalGameId 0"
      "\<lparr>rgame_peer_id = peer_a, rgame_remote_game_id = RemoteGameId 7,
        rgame_listener = Some \<lparr>rgl_handle = GameListenerHandle 0, rgl_addr = V4 0 40000\<rparr>\<rparr>" peer_a
      "\<lparr>rgl_handle = GameListenerHandle 0, rgl_addr = V4 0 40000\<rparr>" "RelayConnectionHandle 3"] wf_ports_game_of_a
  by (auto simp: game_of_a)

end
