(* ===== verification/Listener_Thread.thy ===== *)
theory Listener_Thread
  imports Game_Listener Relay_Routing
begin

text \<open>
  The thread that \<open>add_game\<close> of \<open>relay/src/relay.rs\<close> starts for a game listener, together with the relay:
  it runs the listener, hands every player that is accepted to the relay, and when the listener has
  ended it tells the relay, which then forgets the listener and its port.
\<close>

section \<open>The thread\<close>

text \<open>The listener, what the relay was sent, and whether the thread has ended.\<close>

record listener_thread =
  lt_listener :: "unit keepalive_state"
  lt_to_relay :: "message list"
  lt_ended :: bool

definition listener_thread_init :: listener_thread where
  "listener_thread_init = \<lparr>lt_listener = GameListener_new, lt_to_relay = [], lt_ended = False\<rparr>"

text \<open>
  Events: \<open>accept\<close> or the timeout, with the outcome of \<open>GameConnection::new\<close> and whether the relay takes
  messages; another action of the listener's loop; the last message of the thread; and the accesses
  of a call of \<open>keepalive\<close> on the relay's thread.
\<close>

datatype thread_event =
    TAccept "(unit, io_error) result" "(game_connection, io_error) result" bool
  | TListener "unit listener_action"
  | TReport bool
  | TKeepalive handle_action

fun thread_step :: "local_game_id \<Rightarrow> thread_event \<Rightarrow> listener_thread \<Rightarrow> listener_thread option" where
  "thread_step local_game_id (TAccept accepted new relay_open) s =
     map_option (\<lambda>l. s\<lparr>lt_listener := l, lt_to_relay := lt_to_relay s @
         (case (accepted, new) of
            (Inr _, Inr connection) \<Rightarrow> if relay_open then [AcceptGameConnection local_game_id connection] else []
          | _ \<Rightarrow> [])\<rparr>)
       (GameListener_run (Accept accepted (map_sum id (\<lambda>_. ()) new) (if relay_open then Ok () else Err ())) (lt_listener s))"
| "thread_step local_game_id (TListener a) s =
     (case a of
        Accept _ _ _ \<Rightarrow> None
      | _ \<Rightarrow> map_option (\<lambda>l. s\<lparr>lt_listener := l\<rparr>) (GameListener_run a (lt_listener s)))"
| "thread_step local_game_id (TReport relay_open) s =
     (case listener_at (lt_listener s) of
        Returned _ \<Rightarrow>
          (if lt_ended s then None
           else Some (s\<lparr>lt_ended := True, lt_to_relay := lt_to_relay s @ (if relay_open then [RemoveGameListener local_game_id] else [])\<rparr>))
      | _ \<Rightarrow> None)"
| "thread_step local_game_id (TKeepalive a) s =
     map_option (\<lambda>l. s\<lparr>lt_listener := l\<rparr>) (keepalive a (lt_listener s))"

section \<open>What the relay hears\<close>

definition thread_ok :: "local_game_id \<Rightarrow> listener_thread \<Rightarrow> bool" where
  "thread_ok i s \<longleftrightarrow>
     keepalive_reachable (lt_listener s)
     \<and> (lt_ended s \<longrightarrow> \<not> running (lt_listener s))
     \<and> (\<exists>players. lt_to_relay s = map (AcceptGameConnection i) players
          \<or> lt_ended s \<and> lt_to_relay s = map (AcceptGameConnection i) players @ [RemoveGameListener i])"

lemma reachable_listener: "keepalive_reachable s \<Longrightarrow> GameListener_run a s = Some s' \<Longrightarrow> keepalive_reachable s'"
  by (rule keepalive_reachable.step) (auto intro: keepalive_step.listener)

lemma reachable_handle: "keepalive_reachable s \<Longrightarrow> keepalive a s = Some s' \<Longrightarrow> keepalive_reachable s'"
  by (rule keepalive_reachable.step) (auto intro: keepalive_step.handle)

lemma listener_run_running: "GameListener_run a s = Some s' \<Longrightarrow> running s"
  by (rule at_running) (cases a; auto split: if_splits)

lemma keepalive_running: "keepalive a s = Some s' \<Longrightarrow> running s' = running s"
  by (cases a) (auto split: if_splits)

interpretation listener_thread: event_machine "thread_step i" "\<lambda>_. True" "thread_ok i"
proof
  show "pred_option (thread_ok i) (thread_step i ev s)" if ok: "thread_ok i s" for ev s
  proof (cases ev)
    case (TAccept accepted new b)
    obtain players where players: "running (lt_listener s) \<Longrightarrow> lt_to_relay s = map (AcceptGameConnection i) players"
      using ok by (auto simp: thread_ok_def)
    let ?a = "Accept accepted (map_sum id (\<lambda>_. ()) new) (if b then Ok () else Err ())"
    show ?thesis
    proof (cases "GameListener_run ?a (lt_listener s)")
      case (Some l)
      let ?new = "case (accepted, new) of (Inr _, Inr c) \<Rightarrow> if b then [c] else [] | _ \<Rightarrow> []"
      have msgs: "lt_to_relay s @ (case (accepted, new) of (Inr _, Inr c) \<Rightarrow> if b then [AcceptGameConnection i c] else [] | _ \<Rightarrow> [])
          = map (AcceptGameConnection i) (players @ ?new)"
        using players[OF listener_run_running[OF Some]] by (auto split: sum.split)
      have "keepalive_reachable l" "\<not> lt_ended s"
        using ok listener_run_running[OF Some] reachable_listener[OF _ Some] by (auto simp: thread_ok_def)
      then show ?thesis
        unfolding TAccept thread_step.simps Some option.map option.pred_inject thread_ok_def
        using msgs by (auto simp del: map_append)
    qed (simp add: TAccept del: GameListener_run.simps)
  next
    case (TListener a)
    show ?thesis
    proof (cases "GameListener_run a (lt_listener s)")
      case (Some l)
      with ok listener_run_running[OF Some] reachable_listener[OF _ Some] TListener show ?thesis
        by (cases a) (auto simp: thread_ok_def simp del: GameListener_run.simps)
    qed (auto simp: TListener split: listener_action.split simp del: GameListener_run.simps)
  next
    case (TReport b)
    then show ?thesis
      using ok by (auto simp: thread_ok_def running_def split: listener_pc.splits)
  next
    case (TKeepalive a)
    show ?thesis
    proof (cases "keepalive a (lt_listener s)")
      case (Some l)
      with ok keepalive_running[OF Some] reachable_handle[OF _ Some] TKeepalive show ?thesis
        by (auto simp: thread_ok_def simp del: keepalive.simps)
    qed (simp add: TKeepalive del: keepalive.simps)
  qed
qed

text \<open>Whether a whole call of \<open>keepalive\<close> on a listener returns \<open>Ok\<close>.\<close>

definition keepalive_succeeds :: "'e keepalive_state \<Rightarrow> bool" where
  "keepalive_succeeds s \<longleftrightarrow> (\<exists>s'. exec_all [H Upgrade, H StoreTrue, H DropRef] s = Some s' \<and> last_result s' = Some True)"

text \<open>
  An uninterrupted call of \<open>keepalive\<close> tells whether the listener is running: on a running listener it sets
  the flag and succeeds, on one that has returned it fails and changes nothing.
\<close>

lemma keepalive_detects_closed:
  assumes "keepalive_reachable s" "handle_at s = HIdle"
  shows "exec_all (if running s then [H Upgrade, H StoreTrue, H DropRef] else [H Upgrade]) s
    = Some (if running s then s\<lparr>flag := True, last_result := Some True\<rparr> else s\<lparr>last_result := Some False\<rparr>)"
  using refs_counted_reachable[OF assms(1)] assms(2) by (simp add: refs_counted_def)

lemma keepalive_succeeds_iff:
  assumes "keepalive_reachable s" "handle_at s = HIdle"
  shows "keepalive_succeeds s \<longleftrightarrow> running s"
  using refs_counted_reachable[OF assms(1)] assms(2) by (auto simp: keepalive_succeeds_def refs_counted_def)

lemma remove_game_listener_dead:
  assumes "relay_wf s" "im_map (games s) i = Some (Remote g)" "rgame_listener g = Some l" "\<not> keepalive_ok env (rgl_handle l)"
  shows "\<exists>s'. remove_game_listener env i s = (s', []) \<and> im_map (games s') i = Some (Remote (g\<lparr>rgame_listener := None\<rparr>))
    \<and> listen_ports s' = listen_ports s - {addr_port (rgl_addr l)}"
  using assms by (simp add: remove_game_listener_def)

text \<open>
  C19: a game listener that has ended is cleared away. However the listener's thread, its loop and the relay's
  calls of \<open>keepalive\<close> are interleaved, the relay is sent the accepted players, each for this game, and
  at most one notice that the listener has ended, after all of them and only when it has; and when the
  relay handles that notice, with \<open>keepalive\<close> as it comes out on this listener, the listener is
  forgotten and its port no longer ignored.
\<close>

theorem ended_listener_cleared:
  assumes "exec_events (thread_step i) es listener_thread_init = Some t"
  shows "(\<exists>players. lt_to_relay t = map (AcceptGameConnection i) players
          \<or> lt_to_relay t = map (AcceptGameConnection i) players @ [RemoveGameListener i])
    \<and> (RemoveGameListener i \<in> set (lt_to_relay t) \<and> handle_at (lt_listener t) = HIdle
        \<and> relay_wf s \<and> im_map (games s) i = Some (Remote g) \<and> rgame_listener g = Some l
        \<and> keepalive_ok env (rgl_handle l) = keepalive_succeeds (lt_listener t)
        \<longrightarrow> (\<exists>s'. handle_message (env, RemoveGameListener i) s = Some (s', [])
              \<and> im_map (games s') i = Some (Remote (g\<lparr>rgame_listener := None\<rparr>))
              \<and> addr_port (rgl_addr l) \<notin> listen_ports s'))"
proof -
  have init: "thread_ok i listener_thread_init"
    by (auto simp: thread_ok_def listener_thread_init_def intro: keepalive_reachable.init exI[of _ "[]"])
  have ok: "thread_ok i t" by (rule listener_thread.exec_inv[OF init _ assms]) simp
  have "\<not> keepalive_succeeds (lt_listener t)"
    if "RemoveGameListener i \<in> set (lt_to_relay t)" "handle_at (lt_listener t) = HIdle"
    using ok that keepalive_succeeds_iff[of "lt_listener t"] by (auto simp: thread_ok_def)
  then show ?thesis using ok remove_game_listener_dead[of s i g l env] by (fastforce simp: thread_ok_def)
qed

theorem ended_listener_cleared_witness:
  "\<exists>t s'. exec_events (thread_step (LocalGameId 0))
        [TListener (TryFrom (Ok ())), TAccept (Err TimedOut) (Err TimedOut) True, TListener Swap, TListener TryUnwrap, TReport True]
        listener_thread_init = Some t
    \<and> handle_message (env_ref\<lparr>keepalive_ok := \<lambda>_. False\<rparr>, RemoveGameListener (LocalGameId 0)) game_of_a = Some (s', [])
    \<and> 40000 \<notin> listen_ports s'"
proof -
  let ?es = "[TListener (TryFrom (Ok ())), TAccept (Err TimedOut) (Err TimedOut) True, TListener Swap, TListener TryUnwrap, TReport True]"
  obtain t where t: "exec_events (thread_step (LocalGameId 0)) ?es listener_thread_init = Some t"
    "RemoveGameListener (LocalGameId 0) \<in> set (lt_to_relay t)" "handle_at (lt_listener t) = HIdle" "strong (lt_listener t) = 0"
    by (simp add: listener_thread_init_def GameListener_new_def listener_return_def)
  have "\<not> keepalive_succeeds (lt_listener t)" using t(3,4) by (simp add: keepalive_succeeds_def)
  then show ?thesis
    using ended_listener_cleared[OF t(1), of game_of_a
        "\<lparr>rgame_peer_id = peer_a, rgame_remote_game_id = RemoteGameId 7,
          rgame_listener = Some \<lparr>rgl_handle = GameListenerHandle 0, rgl_addr = V4 0 40000\<rparr>\<rparr>"
        "\<lparr>rgl_handle = GameListenerHandle 0, rgl_addr = V4 0 40000\<rparr>" "env_ref\<lparr>keepalive_ok := \<lambda>_. False\<rparr>"]
      t wf_game_of_a
    by (auto simp: game_of_a)
qed

section \<open>A port that is bound again\<close>

lemma wf_next_key_free:
  assumes "relay_wf s" "im_map (games s) i = Some g"
  shows "i \<noteq> LocalGameId (next_key (games s))"
  using relay_wfD(2)[OF assms(1)] assms(2) by (auto simp: wf_ids_def game_ids.sound_def keys_below_def)

text \<open>A peer's first advertisement of a game, when the new listener could be bound.\<close>

lemma add_game_bound:
  assumes "env_lawful env" "peers s from = Some peer" "peer_games peer (RemoteGameId (rgm_id gm)) = None"
    and "im_map (games s) (LocalGameId (next_key (games s))) = None" "new_listener env = Ok l"
  shows "\<exists>s1 eff. add_game env from gm s = Some (s1, eff, Some \<lparr>rg_local_game_id = LocalGameId (next_key (games s))\<rparr>)
    \<and> im_map (games s1) = (im_map (games s))(LocalGameId (next_key (games s)) \<mapsto> Remote \<lparr>rgame_peer_id = from,
      rgame_remote_game_id = RemoteGameId (rgm_id gm),
      rgame_listener = Some \<lparr>rgl_handle = gl_keepalive l, rgl_addr = gl_local_addr l\<rparr>\<rparr>)"
proof -
  let ?g = "\<lparr>rgame_peer_id = from, rgame_remote_game_id = RemoteGameId (rgm_id gm),
      rgame_listener = Some \<lparr>rgl_handle = gl_keepalive l, rgl_addr = gl_local_addr l\<rparr>\<rparr>"
  obtain adv where "advertise env ?g (rgm_motd gm) = Some adv"
    using advertise_total[OF assms(1)] by blast
  with assms(2-5) show ?thesis
    by (simp add: add_game_def next_id_def check_listener_def start_listener_def Let_def)
qed

text \<open>
  C39: the ports that are ignored are not counted. A listener's socket is closed before the relay hears of
  it, so the system may give its port to the next listener. When it does, and the relay then handles
  the notice that the old listener has ended, the port is no longer ignored although a listener of
  the relay uses it: the relay takes its own advertisement of that game for a game of the LAN.
\<close>

theorem stale_port_forgotten:
  assumes "relay_wf s" "env_lawful env" "im_map (games s) i = Some (Remote g)" "rgame_listener g = Some old"
    and "peers s from = Some peer" "peer_games peer (RemoteGameId (rgm_id gm)) = None"
    and "new_listener env = Ok new" "addr_port (gl_local_addr new) = addr_port (rgl_addr old)"
    and "\<not> keepalive_ok env' (rgl_handle old)"
  shows "\<exists>s1 eff e s2 g' l. add_game env from gm s = Some (s1, eff, Some e)
    \<and> remove_game_listener env' i s1 = (s2, [])
    \<and> im_map (games s2) (rg_local_game_id e) = Some (Remote g') \<and> rgame_listener g' = Some l
    \<and> addr_port (rgl_addr l) \<notin> listen_ports s2
    \<and> (\<forall>env'' src motd. addr_port src = discovery_port s2 \<longrightarrow>
         set_port src (addr_port (rgl_addr l)) \<in> dom (local_games (fst (add_local_game env'' src (addr_port (rgl_addr l)) motd s2))))"
proof -
  let ?j = "LocalGameId (next_key (games s))"
  have j: "i \<noteq> ?j" "im_map (games s) ?j = None"
    using wf_next_key_free[OF assms(1)] assms(3) by (blast, metis option.exhaust)
  obtain s1 eff e where s1: "add_game env from gm s = Some (s1, eff, Some e)" "e = \<lparr>rg_local_game_id = ?j\<rparr>"
    "im_map (games s1) = (im_map (games s))(?j \<mapsto> Remote \<lparr>rgame_peer_id = from,
      rgame_remote_game_id = RemoteGameId (rgm_id gm),
      rgame_listener = Some \<lparr>rgl_handle = gl_keepalive new, rgl_addr = gl_local_addr new\<rparr>\<rparr>)"
    using add_game_bound[OF assms(2,5,6) j(2) assms(7)] by blast
  let ?s2 = "fst (remove_game_listener env' i s1)"
  have s2: "remove_game_listener env' i s1 = (?s2, [])" "im_map (games ?s2) ?j = im_map (games s1) ?j"
    "addr_port (rgl_addr old) \<notin> listen_ports ?s2"
    using s1(3) j(1) assms(3,4,9) by (simp_all add: remove_game_listener_def)
  from unrecorded_port_taken[OF s2(3)] show ?thesis using s1 s2 assms(8) by auto
qed

theorem stale_port_forgotten_witness:
  "\<exists>s1 eff e s2. add_game env_ref peer_b first_game game_of_a = Some (s1, eff, Some e)
    \<and> remove_game_listener (env_ref\<lparr>keepalive_ok := \<lambda>_. False\<rparr>) (LocalGameId 0) s1 = (s2, [])
    \<and> (\<exists>g' l. im_map (games s2) (rg_local_game_id e) = Some (Remote g') \<and> rgame_listener g' = Some l
         \<and> addr_port (rgl_addr l) \<notin> listen_ports s2)"
  using stale_port_forgotten[OF wf_game_of_a env_lawful_ref, of "LocalGameId 0"
      "\<lparr>rgame_peer_id = peer_a, rgame_remote_game_id = RemoteGameId 7,
        rgame_listener = Some \<lparr>rgl_handle = GameListenerHandle 0, rgl_addr = V4 0 40000\<rparr>\<rparr>"
      "\<lparr>rgl_handle = GameListenerHandle 0, rgl_addr = V4 0 40000\<rparr>" peer_b "Peer_new (RelayConnectionHandle 2)" first_game
      "\<lparr>gl_local_addr = V4 0 40000, gl_keepalive = GameListenerHandle 0\<rparr>" "env_ref\<lparr>keepalive_ok := \<lambda>_. False\<rparr>"]
  by (fastforce simp: game_of_a env_ref_def Peer_new_def)

end
