(* ===== verification/Game_Connection.thy ===== *)
theory Game_Connection
  imports Relay_Types
begin

text \<open>
  \<open>relay/src/game/connection.rs\<close> and the threads of \<open>relay/src/relay.rs\<close> that use it: a connection to
  a game or a player is read into messages for a peer and written from a queue of data of the peer,
  both on one thread, until one of the two ends; then the peer is told that the connection is closed.
\<close>

section \<open>The connection\<close>

datatype 'e game_connection_error = GC_Io io_error | GC_Returned 'e

text \<open>
  What a connection sees: the outcome of a \<open>read\<close> (no bytes at the end of the stream), or what its
  queue yields (\<open>None\<close> when every sender is gone) together with the outcome of writing it.
\<close>

datatype game_event =
    ReadDone "(bytes, io_error) result"
  | QueueRecv "bytes option" write_outcome

text \<open>
  \<open>GameConnection::new\<close> on an open stream, with the handle of a new queue, and \<open>connect\<close>, which gives
  up when the timer is first.
\<close>

definition GameConnection_new :: "os \<Rightarrow> socket_addr \<Rightarrow> game_connection_handle \<Rightarrow> (game_connection, io_error) result" where
  "GameConnection_new os peer_addr tx =
     and_then (sys_on os (SetNodelay True) []) (\<lambda>stream. Ok \<lparr>gc_peer_addr = peer_addr, gc_tx = tx\<rparr>)"

definition GameConnection_connect ::
  "os \<Rightarrow> (unit, io_error) result option \<Rightarrow> game_connection_handle \<Rightarrow> (game_connection, io_error) result"
where
  "GameConnection_connect os connected tx =
     and_then (or_timeout connected) (\<lambda>_.
     and_then (peer_addr_of os []) (\<lambda>peer_addr.
     GameConnection_new os peer_addr tx))"

text \<open>\<open>wait_for_data\<close>: the first data of the queue is written before anything is read.\<close>

fun wait_for_data :: "bytes option \<Rightarrow> write_outcome \<Rightarrow> (unit, 'e game_connection_error) result \<times> bytes" where
  "wait_for_data None w = (Ok (), [])"
| "wait_for_data (Some data) w =
     (case stream_write_all data w of (Inl e, out) \<Rightarrow> (Err (GC_Io e), out) | (Inr _, out) \<Rightarrow> (Ok (), out))"

text \<open>
  \<open>run\<close>: the read loop and the write loop, whichever is ready, until one of them returns. The bytes
  written to the stream are returned.
\<close>

fun GameConnection_run ::
  "(bytes \<Rightarrow> 's \<Rightarrow> (unit, 'e) result \<times> 's) \<Rightarrow> game_event list \<Rightarrow> 's \<Rightarrow>
    (unit, 'e game_connection_error) result poll \<times> bytes \<times> 's"
where
  "GameConnection_run callback [] s = (Pending, [], s)"
| "GameConnection_run callback (ReadDone (Inl e) # es) s = (Ready (Err (GC_Io e)), [], s)"
| "GameConnection_run callback (ReadDone (Inr data) # es) s =
     (if length data = 0 then (Ready (Ok ()), [], s)
      else case callback data s of
        (Inl e, s) \<Rightarrow> (Ready (Err (GC_Returned e)), [], s)
      | (Inr _, s) \<Rightarrow> GameConnection_run callback es s)"
| "GameConnection_run callback (QueueRecv None w # es) s = (Ready (Ok ()), [], s)"
| "GameConnection_run callback (QueueRecv (Some data) w # es) s =
     (case stream_write_all data w of
        (Inl e, out) \<Rightarrow> (Ready (Err (GC_Io e)), out, s)
      | (Inr _, out) \<Rightarrow> (let (r, out', s) = GameConnection_run callback es s in (r, out @ out', s)))"

section \<open>The threads of the relay\<close>

text \<open>
  \<open>RelayConnectionHandle::send\<close> on the queue of a peer: \<open>accepts\<close> says whether the queue still has its
  receiver after the messages it was given so far.
\<close>

definition peer_send :: "(relay_message list \<Rightarrow> bool) \<Rightarrow> relay_message \<Rightarrow> relay_message list \<Rightarrow> (unit, unit) result \<times> relay_message list" where
  "peer_send accepts m sent = (if accepts sent then (Ok (), sent @ [m]) else (Err (), sent))"

definition data_message :: "connection_id \<Rightarrow> bytes \<Rightarrow> relay_message" where
  "data_message c data = \<lparr>inner = Some (Data
     \<lparr>rd_connection_id = cid_id c, rd_connection_local = cid_local c, rd_data = data\<rparr>)\<rparr>"

definition close_message :: "connection_id \<Rightarrow> relay_message" where
  "close_message c = \<lparr>inner = Some (CloseConnection
     \<lparr>rcc_connection_id = cid_id c, rcc_connection_local = cid_local c\<rparr>)\<rparr>"

text \<open>
  The thread that \<open>accept_game_connection\<close> starts for a player: wait for the first data, run, and send
  the close whatever came out. The result is whether the thread has ended, the bytes written to the
  player, and the messages queued for the peer.
\<close>

definition accepted_thread ::
  "(relay_message list \<Rightarrow> bool) \<Rightarrow> connection_id \<Rightarrow> bytes option \<Rightarrow> write_outcome \<Rightarrow> game_event list \<Rightarrow>
    relay_message list \<Rightarrow> bool \<times> bytes \<times> relay_message list"
where
  "accepted_thread accepts c first w es sent =
     (case (wait_for_data first w :: (unit, unit game_connection_error) result \<times> bytes) of
        (Inl _, out) \<Rightarrow> (True, out, snd (peer_send accepts (close_message c) sent))
      | (Inr _, out) \<Rightarrow>
          (case GameConnection_run (\<lambda>data. peer_send accepts (data_message c data)) es sent of
             (Ready _, out', sent) \<Rightarrow> (True, out @ out', snd (peer_send accepts (close_message c) sent))
           | (_, out', sent) \<Rightarrow> (False, out @ out', sent)))"

text \<open>
  The thread that \<open>connect_local\<close> starts: connect, tell the relay (whose queue may be gone, and then the
  thread ends without a word), run, and send the close. The message to the relay is returned first.
\<close>

definition connect_thread ::
  "(relay_message list \<Rightarrow> bool) \<Rightarrow> bool \<Rightarrow> peer_id \<Rightarrow> local_game_id \<Rightarrow> connection_id \<Rightarrow>
    (game_connection, io_error) result \<Rightarrow> game_event list \<Rightarrow> relay_message list \<Rightarrow>
    message list \<times> bool \<times> bytes \<times> relay_message list"
where
  "connect_thread accepts relay_open from game_id c connected es sent =
     (case connected of
        Inl _ \<Rightarrow> ([], True, [], snd (peer_send accepts (close_message c) sent))
      | Inr connection \<Rightarrow>
          (if \<not> relay_open then ([], True, [], sent)
           else
             ([AddGameConnection from c game_id (gc_tx connection)],
              case GameConnection_run (\<lambda>data. peer_send accepts (data_message c data)) es sent of
                (Ready _, out, sent) \<Rightarrow> (True, out, snd (peer_send accepts (close_message c) sent))
              | (_, out, sent) \<Rightarrow> (False, out, sent))))"

section \<open>What is pumped\<close>

text \<open>The data read, and the data queued, in a sequence of events.\<close>

fun reads :: "game_event list \<Rightarrow> bytes list" where
  "reads [] = []"
| "reads (ReadDone (Inr data) # es) = data # reads es"
| "reads (_ # es) = reads es"

fun queued :: "game_event list \<Rightarrow> bytes list" where
  "queued [] = []"
| "queued (QueueRecv (Some data) _ # es) = data # queued es"
| "queued (_ # es) = queued es"

fun ends :: "game_event \<Rightarrow> bool" where
  "ends (ReadDone r) = (case r of Inl _ \<Rightarrow> True | Inr data \<Rightarrow> data = [])"
| "ends (QueueRecv d w) = (d = None \<or> w \<noteq> None)"

lemma run_pending:
  assumes "\<forall>ev \<in> set es. \<not> ends ev" "\<And>data s. fst (callback data s) = Ok ()"
  shows "GameConnection_run callback (es @ fs) s =
    (let (r, out, s) = GameConnection_run callback fs (fold (\<lambda>d s. snd (callback d s)) (reads es) s)
     in (r, concat (queued es) @ out, s))"
  using assms(1)
proof (induction es arbitrary: s)
  case Nil
  then show ?case by (simp add: split_beta Let_def)
next
  case (Cons ev es)
  note IH = Cons.IH[simplified split_beta Let_def]
  show ?case
  proof (cases ev)
    case (ReadDone r)
    then obtain data where "r = Ok data" "data \<noteq> []" using Cons.prems by (cases r) auto
    moreover obtain s' where "callback data s = (Ok (), s')"
      using assms(2)[of data s] by (cases "callback data s") simp
    ultimately show ?thesis using ReadDone IH Cons.prems by (simp add: split_beta Let_def)
  next
    case (QueueRecv d w)
    then obtain data where "d = Some data" "w = None" using Cons.prems by (cases d; cases w) auto
    with QueueRecv IH Cons.prems show ?thesis by (simp add: split_beta Let_def)
  qed
qed

lemma run_end: "ends ev \<Longrightarrow> \<exists>r out. GameConnection_run callback (ev # fs) s = (Ready r, out, s)"
proof (cases ev)
  case (ReadDone r)
  assume "ends ev"
  with ReadDone show ?thesis by (cases r) auto
next
  case (QueueRecv d w)
  assume "ends ev"
  with QueueRecv show ?thesis by (cases d; cases w) auto
qed

lemma fold_peer_send:
  "fold (\<lambda>d s. snd (peer_send (\<lambda>_. True) (data_message c d) s)) ds sent = sent @ map (data_message c) ds"
  by (induction ds arbitrary: sent) (simp_all add: peer_send_def)

text \<open>The two threads while nothing ends them.\<close>

lemma accepted_thread_open:
  assumes "\<forall>ev \<in> set es. \<not> ends ev"
  shows "accepted_thread (\<lambda>_. True) c (Some first) None es sent
    = (False, first @ concat (queued es), sent @ map (data_message c) (reads es))"
proof -
  let ?cb = "\<lambda>data. peer_send (\<lambda>_. True) (data_message c data)"
  have cb: "fst (?cb data s) = Ok ()" for data s by (simp add: peer_send_def)
  show ?thesis
    using run_pending[of es ?cb "[]" sent, OF assms cb, unfolded fold_peer_send] by (simp add: accepted_thread_def)
qed

lemma connect_thread_open:
  assumes "\<forall>ev \<in> set es. \<not> ends ev"
  shows "connect_thread (\<lambda>_. True) True from i c (Inr conn) es sent
    = ([AddGameConnection from c i (gc_tx conn)], False, concat (queued es), sent @ map (data_message c) (reads es))"
proof -
  let ?cb = "\<lambda>data. peer_send (\<lambda>_. True) (data_message c data)"
  have cb: "fst (?cb data s) = Ok ()" for data s by (simp add: peer_send_def)
  show ?thesis
    using run_pending[of es ?cb "[]" sent, OF assms cb, unfolded fold_peer_send] by (simp add: connect_thread_def)
qed

text \<open>
  C18: the thread of an accepted player carries the connection. While nothing ends it, the player gets
  the first data and then all queued data in order, and the peer one message for each read, in order;
  when something ends it, exactly one close message follows as the last one, and nothing after the end
  has an effect. The peer's queue is open throughout.
\<close>

theorem accepted_thread_pumps:
  assumes "\<forall>ev \<in> set es. \<not> ends ev"
  shows "accepted_thread (\<lambda>_. True) c (Some first) None es sent
      = (False, first @ concat (queued es), sent @ map (data_message c) (reads es))
    \<and> (ends ev \<longrightarrow> (\<exists>out. accepted_thread (\<lambda>_. True) c (Some first) None (es @ ev # fs) sent
      = (True, first @ concat (queued es) @ out, sent @ map (data_message c) (reads es) @ [close_message c])))"
proof -
  let ?cb = "\<lambda>data. peer_send (\<lambda>_. True) (data_message c data)"
  have cb: "fst (?cb data s) = Ok ()" for data s by (simp add: peer_send_def)
  note run = run_pending[of es ?cb, OF assms cb, unfolded fold_peer_send]
  have "\<exists>out. accepted_thread (\<lambda>_. True) c (Some first) None (es @ ev # fs) sent
      = (True, first @ concat (queued es) @ out, sent @ map (data_message c) (reads es) @ [close_message c])"
    if "ends ev"
    using run_end[OF that, of ?cb fs "sent @ map (data_message c) (reads es)"] run[of "ev # fs" sent]
    by (auto simp: accepted_thread_def peer_send_def)
  with accepted_thread_open[OF assms] show ?thesis by blast
qed

theorem accepted_thread_pumps_witness:
  "\<exists>out. accepted_thread (\<lambda>_. True) (ConnectionId 0 False) (Some [1]) None
      [ReadDone (Ok [7]), QueueRecv (Some [2]) None, ReadDone (Ok []), ReadDone (Ok [8])] []
    = (True, [1] @ [2] @ out,
       [data_message (ConnectionId 0 False) [7], close_message (ConnectionId 0 False)])"
  using accepted_thread_pumps[of "[ReadDone (Ok [7]), QueueRecv (Some [2]) None]" "ConnectionId 0 False" "[1]" "[]"
      "ReadDone (Ok [])" "[ReadDone (Ok [8])]"]
  by simp

text \<open>
  C27: the thread that connects to a game of the LAN always reports back: a failed connection is closed
  towards the peer, a successful one is announced to the relay under the id the peer chose, and when it
  ends the peer has got every read in order and then one close. The queues are open throughout.
\<close>

theorem connect_thread_reports:
  "connect_thread (\<lambda>_. True) True from i c (Inl err) es sent = ([], True, [], sent @ [close_message c])
   \<and> ((\<forall>ev \<in> set es. \<not> ends ev) \<and> ends ev \<longrightarrow>
        (\<exists>out. connect_thread (\<lambda>_. True) True from i c (Inr conn) (es @ ev # fs) sent
          = ([AddGameConnection from c i (gc_tx conn)], True, concat (queued es) @ out,
             sent @ map (data_message c) (reads es) @ [close_message c])))"
proof -
  let ?cb = "\<lambda>data. peer_send (\<lambda>_. True) (data_message c data)"
  have cb: "fst (?cb data s) = Ok ()" for data s by (simp add: peer_send_def)
  have "\<exists>out. connect_thread (\<lambda>_. True) True from i c (Inr conn) (es @ ev # fs) sent
      = ([AddGameConnection from c i (gc_tx conn)], True, concat (queued es) @ out,
         sent @ map (data_message c) (reads es) @ [close_message c])"
    if "\<forall>ev \<in> set es. \<not> ends ev" "ends ev"
    using run_end[OF that(2), of ?cb fs "sent @ map (data_message c) (reads es)"]
      run_pending[of es ?cb "ev # fs" sent, OF that(1) cb, unfolded fold_peer_send]
    by (auto simp: connect_thread_def peer_send_def)
  then show ?thesis by (simp add: connect_thread_def peer_send_def)
qed

theorem connect_thread_reports_witness:
  "\<exists>out. connect_thread (\<lambda>_. True) True (PeerId (RelayStaticKey [])) (LocalGameId 3) (ConnectionId 5 False)
      (Inr \<lparr>gc_peer_addr = V4 1 25565, gc_tx = GameConnectionHandle 2\<rparr>) ([ReadDone (Ok [7])] @ QueueRecv None None # []) []
    = ([AddGameConnection (PeerId (RelayStaticKey [])) (ConnectionId 5 False) (LocalGameId 3) (GameConnectionHandle 2)], True, out,
       [data_message (ConnectionId 5 False) [7], close_message (ConnectionId 5 False)])"
  using connect_thread_reports[of "PeerId (RelayStaticKey [])" "LocalGameId 3" "ConnectionId 5 False" TimedOut
      "[ReadDone (Ok [7])]" "[]" "QueueRecv None None" "\<lparr>gc_peer_addr = V4 1 25565, gc_tx = GameConnectionHandle 2\<rparr>" "[]"]
  by simp

end
