(* ===== verification/End_To_End.thy ===== *)
theory End_To_End
  imports Relay_Routing Game_Connection
begin

text \<open>
  Two relays, from the advertisement of a game on the LAN of one to data between a player at the other and
  the game: the handlers of both relays and the threads of the player's and the game's connection,
  composed by the messages they exchange.
\<close>

section \<open>The side of the game\<close>

lemma local_game_advertised:
  assumes "relay_wf s" "env_lawful env" "keys_left (games s) (Suc n)"
    and "addr_port src \<noteq> discovery_port s \<or> port \<notin> listen_ports s"
    and "peers s p = Some peer" "send_ok env (peer_handle peer)"
  obtains s' eff i where "handle_message (env, AddLocalGame src port motd) s = Some (s', eff)" "relay_wf s'"
    "SendPeer (peer_handle peer) \<lparr>inner = Some (Game \<lparr>rgm_id = lg_u64 i, rgm_motd = motd, rgm_hops = 0\<rparr>)\<rparr> \<in> set eff"
    "im_map (games s') i = Some (Local \<lparr>lgame_addr = set_port src port\<rparr>)" "peers s' p = Some peer"
proof -
  obtain s' eff where add: "add_local_game env src port motd s = (s', eff)" by fastforce
  obtain i s1 errors where entry: "local_game_entry (set_port src port) s = (i, s1)"
    and send: "send_each env \<lparr>inner = Some (Game \<lparr>rgm_id = lg_u64 i, rgm_motd = motd, rgm_hops = 0\<rparr>)\<rparr>
      (peers s1) (filter (\<lambda>p. Some p \<noteq> None) (iter_peers env (peers s1))) = (eff, errors)"
    and s': "s' = remove_peers env errors s1"
    using add_local_game_eq[OF assms(4) add] by blast
  note s1 = local_game_entry_props[OF entry]
  note spec = broadcast_spec[OF assms(2) relay_wfD(1)[OF assms(1)] refl send[unfolded s1(1)]]
  have sent: "SendPeer (peer_handle peer) \<lparr>inner = Some (Game \<lparr>rgm_id = lg_u64 i, rgm_motd = motd, rgm_hops = 0\<rparr>)\<rparr> \<in> set eff"
    unfolding spec(1) using assms(5,6) by (force simp: receivers_def)
  have "p \<notin> set errors" unfolding spec(3) using assms(5,6) by (auto simp: unreachable_def)
  then have peer: "peers s' p = Some peer"
    using assms(5) s1(1) by (simp add: s' peers_remove_peers)
  have wf: "relay_wf s'" by (rule add_local_game_ok[OF assms(1-3) add])
  have "local_games s' (set_port src port) = Some i" using s1(2) by (simp add: s' relay_frame)
  then have "im_map (games s') i = Some (Local \<lparr>lgame_addr = set_port src port\<rparr>)"
    using relay_wfD(4)[OF wf] by (simp add: wf_local_games_def)
  then show ?thesis by (intro that[OF _ wf sent _ peer]) (simp_all add: add)
qed

lemma game_connected:
  assumes "im_map (games s) i = Some (Local g)" "peers s p = Some peer" "send_ok env (peer_handle peer)" "\<not> cid_local c"
  obtains s' where
    "handle_message (env, Recv p \<lparr>inner = Some (Connect \<lparr>rc_game_id = lg_u64 i, rc_connection_id = cid_id c, rc_hops = h\<rparr>)\<rparr>) s
       = Some (s, [SpawnConnect p i c (lgame_addr g) (peer_handle peer)])"
    "handle_message (env, AddGameConnection p c i tx) s = Some (s', [SendPeer (peer_handle peer) (data_message c [])])"
    "\<And>env d. game_send_ok env tx \<Longrightarrow> handle_message (env, Recv p (data_message c d)) s' = Some (s', [SendGame tx d])"
proof -
  have c: "ConnectionId (cid_id c) False = c" "ConnectionId (cid_id c) (cid_local c) = c" using assms(4) by (cases c; simp)+
  let ?s = "s\<lparr>peers := (peers s)(p \<mapsto> peer\<lparr>local_connections := (local_connections peer)(c \<mapsto> \<lparr>lc_tx = tx\<rparr>)\<rparr>)\<rparr>"
  show ?thesis
    by (rule that[of ?s])
      (use assms c in \<open>simp_all add: handle_peer_message_def handle_connect_def connect_local_def add_game_connection_def
        handle_data_def data_message_def Let_def\<close>)
qed

section \<open>The side of the player\<close>

lemma player_connected:
  assumes "relay_wf s" "env_lawful env" "keys_left (games s) (Suc n)"
    and "peers s p = Some peer" "send_ok env (peer_handle peer)"
  obtains s1 eff j s2 c where "handle_message (env, Recv p \<lparr>inner = Some (Game gm)\<rparr>) s = Some (s1, eff)" "\<not> cid_local c"
    "handle_message (env, AcceptGameConnection j player) s1 =
       Some (s2, [SendPeer (peer_handle peer) \<lparr>inner = Some (Connect \<lparr>rc_game_id = rgm_id gm, rc_connection_id = cid_id c, rc_hops = 0\<rparr>)\<rparr>,
                  SpawnAccepted j c player (peer_handle peer)])"
    "\<And>env d. game_send_ok env (gc_tx player) \<Longrightarrow> handle_message (env, Recv p (data_message c d)) s2 = Some (s2, [SendGame (gc_tx player) d])"
proof -
  obtain s1 s' listened adv fwd e g where h: "handle_game env p gm s = Some (s', listened @ adv @ fwd)" "relay_wf s'"
    and "add_game env p gm s = Some (s1, listened @ adv, Some e)"
    and peer: "peers s' p = Some (peer\<lparr>peer_games := (peer_games peer)(RemoteGameId (rgm_id gm) \<mapsto> e)\<rparr>)"
    and g: "im_map (games s') (rg_local_game_id e) = Some (Remote g)"
      "rgame_peer_id g = p" "rgame_remote_game_id g = RemoteGameId (rgm_id gm)"
    by (rule handle_game_known[OF assms(1-4), of gm]) (rule that; assumption)
  let ?c = "next_connection_id peer"
  have c: "\<not> cid_local ?c" "ConnectionId (cid_id ?c) False = ?c"
    using relay_wfD(5)[OF assms(1)] assms(4) next_id_unflagged[OF assms(1,4)] by (auto simp: wf_flags_def)
  obtain s2 where s2: "accept_game_connection env (rg_local_game_id e) player s' =
       (s2, [SendPeer (peer_handle peer) \<lparr>inner = Some (Connect \<lparr>rc_game_id = rgm_id gm, rc_connection_id = cid_id ?c, rc_hops = 0\<rparr>)\<rparr>,
             SpawnAccepted (rg_local_game_id e) ?c player (peer_handle peer)])"
    "\<exists>peer'. peers s2 p = Some peer' \<and> local_connections peer' ?c = Some \<lparr>lc_tx = gc_tx player\<rparr>"
    by (simp add: accept_game_connection_def g peer assms(5) Let_def)
  show ?thesis
    by (rule that[of s' "listened @ adv @ fwd" ?c "rg_local_game_id e" s2])
      (use h(1) s2 c in \<open>auto simp: handle_peer_message_def handle_data_def data_message_def Let_def\<close>)
qed

section \<open>Both together\<close>

lemma run_each:
  assumes "\<And>d. handle_message (env, f d) s = Some (s, [g d])"
  shows "run (map (\<lambda>d. (env, f d)) ds) s = Some (s, map g ds)"
  unfolding run_def by (induction ds) (simp_all add: assms del: handle_message.simps)

text \<open>
  C4: a game on the LAN of one relay is played at another. The advertisement of the game reaches the peer;
  the peer's handling of it makes an id under which a player can be accepted; the request that this
  sends makes the first relay connect to the game's address; the connection is registered under the id
  the player's relay chose, and the empty message that follows lets the player's thread begin. From then
  on, whatever the player and the game send is queued, in order, for the game and for the player.
\<close>

theorem game_played_across:
  assumes "relay_wf sg" "env_lawful eg" "keys_left (games sg) (Suc n)"
    and "addr_port src \<noteq> discovery_port sg \<or> port \<notin> listen_ports sg"
    and "peers sg pp = Some to_player" "send_ok eg (peer_handle to_player)" "game_send_ok eg (gc_tx game)"
    and "relay_wf sp" "env_lawful ep" "keys_left (games sp) (Suc m)"
    and "peers sp pg = Some to_game" "send_ok ep (peer_handle to_game)" "game_send_ok ep (gc_tx player)"
  shows "\<exists>sg1 advs advertisement sp1 listened j sp2 request c i sg2.
      handle_message (eg, AddLocalGame src port motd) sg = Some (sg1, advs)
    \<and> SendPeer (peer_handle to_player) advertisement \<in> set advs
    \<and> handle_message (ep, Recv pg advertisement) sp = Some (sp1, listened)
    \<and> handle_message (ep, AcceptGameConnection j player) sp1
        = Some (sp2, [SendPeer (peer_handle to_game) request, SpawnAccepted j c player (peer_handle to_game)])
    \<and> handle_message (eg, Recv pp request) sg1
        = Some (sg1, [SpawnConnect pp i c (set_port src port) (peer_handle to_player)])
    \<and> handle_message (eg, AddGameConnection pp c i (gc_tx game)) sg1
        = Some (sg2, [SendPeer (peer_handle to_player) (data_message c [])])
    \<and> handle_message (ep, Recv pg (data_message c [])) sp2 = Some (sp2, [SendGame (gc_tx player) []])
    \<and> (\<forall>es. (\<forall>ev \<in> set es. \<not> ends ev) \<longrightarrow>
        (\<exists>out sent. accepted_thread (\<lambda>_. True) c (Some []) None es [] = (False, out, sent)
          \<and> run (map (\<lambda>m. (eg, Recv pp m)) sent) sg2 = Some (sg2, map (SendGame (gc_tx game)) (reads es)))
      \<and> (\<exists>out sent. connect_thread (\<lambda>_. True) True pp i c (Ok game) es []
            = ([AddGameConnection pp c i (gc_tx game)], False, out, sent)
          \<and> run (map (\<lambda>m. (ep, Recv pg m)) sent) sp2 = Some (sp2, map (SendGame (gc_tx player)) (reads es))))"
proof -
  obtain sg1 advs i where g: "handle_message (eg, AddLocalGame src port motd) sg = Some (sg1, advs)"
      "SendPeer (peer_handle to_player) \<lparr>inner = Some (Game \<lparr>rgm_id = lg_u64 i, rgm_motd = motd, rgm_hops = 0\<rparr>)\<rparr> \<in> set advs"
      "im_map (games sg1) i = Some (Local \<lparr>lgame_addr = set_port src port\<rparr>)" "peers sg1 pp = Some to_player"
    by (rule local_game_advertised[OF assms(1-6), of motd]) (rule that; assumption)
  obtain sp1 listened j sp2 c where p:
    "handle_message (ep, Recv pg \<lparr>inner = Some (Game \<lparr>rgm_id = lg_u64 i, rgm_motd = motd, rgm_hops = 0\<rparr>)\<rparr>) sp = Some (sp1, listened)" "\<not> cid_local c"
    "handle_message (ep, AcceptGameConnection j player) sp1 =
       Some (sp2, [SendPeer (peer_handle to_game) \<lparr>inner = Some (Connect \<lparr>rc_game_id = lg_u64 i, rc_connection_id = cid_id c, rc_hops = 0\<rparr>)\<rparr>,
                   SpawnAccepted j c player (peer_handle to_game)])"
    "\<And>d. handle_message (ep, Recv pg (data_message c d)) sp2 = Some (sp2, [SendGame (gc_tx player) d])"
    using player_connected[OF assms(8-12), of "\<lparr>rgm_id = lg_u64 i, rgm_motd = motd, rgm_hops = 0\<rparr>" player thesis] assms(13)
    by (simp del: handle_message.simps)
  obtain sg2 where q:
    "handle_message (eg, Recv pp \<lparr>inner = Some (Connect \<lparr>rc_game_id = lg_u64 i, rc_connection_id = cid_id c, rc_hops = 0\<rparr>)\<rparr>) sg1
       = Some (sg1, [SpawnConnect pp i c (set_port src port) (peer_handle to_player)])"
    "handle_message (eg, AddGameConnection pp c i (gc_tx game)) sg1 = Some (sg2, [SendPeer (peer_handle to_player) (data_message c [])])"
    "\<And>d. handle_message (eg, Recv pp (data_message c d)) sg2 = Some (sg2, [SendGame (gc_tx game) d])"
    using game_connected[OF g(3,4) assms(6) p(2), of 0 "gc_tx game" thesis] assms(7) by (simp del: handle_message.simps)
  have "run (map (\<lambda>m. (eg, Recv pp m)) (map (data_message c) ds)) sg2 = Some (sg2, map (SendGame (gc_tx game)) ds)"
    "run (map (\<lambda>m. (ep, Recv pg m)) (map (data_message c) ds)) sp2 = Some (sp2, map (SendGame (gc_tx player)) ds)" for ds
    using run_each[of eg "\<lambda>d. Recv pp (data_message c d)", OF q(3)] run_each[of ep "\<lambda>d. Recv pg (data_message c d)", OF p(4)]
    by (simp_all add: comp_def)
  then show ?thesis
    using g(1,2) p(1,3) p(4)[of "[]"] q(1,2) accepted_thread_open[of _ c "[]" "[]"] connect_thread_open[of _ pp i c game "[]"]
    by (intro exI conjI) (assumption | simp del: handle_message.simps)+
qed

theorem game_played_across_witness:
  "\<exists>sg1 advs advertisement sp1 listened j sp2 request c i sg2.
      handle_message (env_ref, AddLocalGame (V4 1 4000) 25565 [65]) two_peers = Some (sg1, advs)
    \<and> SendPeer (RelayConnectionHandle 1) advertisement \<in> set advs
    \<and> handle_message (env_ref, Recv peer_b advertisement) two_peers = Some (sp1, listened)
    \<and> handle_message (env_ref, AcceptGameConnection j \<lparr>gc_peer_addr = V4 9 9, gc_tx = GameConnectionHandle 4\<rparr>) sp1
        = Some (sp2, [SendPeer (RelayConnectionHandle 2) request,
            SpawnAccepted j c \<lparr>gc_peer_addr = V4 9 9, gc_tx = GameConnectionHandle 4\<rparr> (RelayConnectionHandle 2)])
    \<and> handle_message (env_ref, Recv peer_a request) sg1
        = Some (sg1, [SpawnConnect peer_a i c (V4 1 25565) (RelayConnectionHandle 1)])
    \<and> run (map (\<lambda>m. (env_ref, Recv peer_a m)) [data_message c [1], data_message c [2]]) sg2
        = Some (sg2, [SendGame (GameConnectionHandle 5) [1], SendGame (GameConnectionHandle 5) [2]])"
proof -
  let ?player = "\<lparr>gc_peer_addr = V4 9 9, gc_tx = GameConnectionHandle 4\<rparr>"
  let ?game = "\<lparr>gc_peer_addr = V4 1 25565, gc_tx = GameConnectionHandle 5\<rparr>"
  let ?es = "[ReadDone (Ok [1]), ReadDone (Ok [2])]"
  have handle: "peer_handle (Peer_new (RelayConnectionHandle n)) = RelayConnectionHandle n" for n
    by (simp add: Peer_new_def)
  have t: "accepted_thread (\<lambda>_. True) c (Some []) None ?es [] = (False, [], [data_message c [1], data_message c [2]])" for c
    using accepted_thread_open[of ?es c "[]" "[]"] by simp
  obtain sg1 advs advertisement sp1 listened j sp2 request c i sg2 where w:
      "handle_message (env_ref, AddLocalGame (V4 1 4000) 25565 [65]) two_peers = Some (sg1, advs)"
      "SendPeer (RelayConnectionHandle 1) advertisement \<in> set advs"
      "handle_message (env_ref, Recv peer_b advertisement) two_peers = Some (sp1, listened)"
      "handle_message (env_ref, AcceptGameConnection j ?player) sp1
        = Some (sp2, [SendPeer (RelayConnectionHandle 2) request, SpawnAccepted j c ?player (RelayConnectionHandle 2)])"
      "handle_message (env_ref, Recv peer_a request) sg1
        = Some (sg1, [SpawnConnect peer_a i c (set_port (V4 1 4000) 25565) (RelayConnectionHandle 1)])"
    and "\<forall>es. (\<forall>ev \<in> set es. \<not> ends ev) \<longrightarrow>
        (\<exists>out sent. accepted_thread (\<lambda>_. True) c (Some []) None es [] = (False, out, sent)
          \<and> run (map (\<lambda>m. (env_ref, Recv peer_a m)) sent) sg2 = Some (sg2, map (SendGame (gc_tx ?game)) (reads es)))"
    using game_played_across[OF wf_two_peers env_lawful_ref room_two_peers, of "V4 1 4000" 25565 peer_a
        "Peer_new (RelayConnectionHandle 1)" ?game two_peers env_ref 0 peer_b "Peer_new (RelayConnectionHandle 2)" ?player "[65]",
        OF _ _ _ _ wf_two_peers env_lawful_ref room_two_peers, unfolded handle]
    by (simp del: handle_message.simps) blast
  from spec[OF this(6), of ?es] t[of c] have "run (map (\<lambda>m. (env_ref, Recv peer_a m)) [data_message c [1], data_message c [2]]) sg2
      = Some (sg2, [SendGame (GameConnectionHandle 5) [1], SendGame (GameConnectionHandle 5) [2]])"
    by simp
  with w(1-4) w(5)[unfolded set_port.simps] show ?thesis by blast
qed

end
