(* ===== verification/Directory.thy ===== *)
theory Directory
  imports Relay_Routing
begin

text \<open>
  What the relay's tables are for, without listeners, connections and queues: a directory of the games
  that can be asked for. Peers join and leave; a game that a peer advertises, and a game of the LAN, gets
  an id that was never given out before; a peer that leaves or joins anew loses its entries, a game of
  the LAN keeps its id for ever. The relay's message loop refines this directory.
\<close>

section \<open>The directory\<close>

record directory =
  members :: "peer_id set"
  remote_ids :: "peer_id \<times> remote_game_id \<rightharpoonup> local_game_id"
  lan_ids :: "socket_addr \<rightharpoonup> local_game_id"
  issued :: "local_game_id set"

definition directory_empty :: directory where
  "directory_empty = \<lparr>members = {}, remote_ids = Map.empty, lan_ids = Map.empty, issued = {}\<rparr>"

datatype directory_action =
    Join peer_id
  | Leave peer_id
  | NameRemote peer_id remote_game_id local_game_id
  | NameLan socket_addr local_game_id

definition without :: "peer_id \<Rightarrow> (peer_id \<times> remote_game_id \<rightharpoonup> local_game_id) \<Rightarrow> peer_id \<times> remote_game_id \<rightharpoonup> local_game_id" where
  "without p f = (\<lambda>(q, r). if q = p then None else f (q, r))"

fun directory_act :: "directory_action \<Rightarrow> directory \<Rightarrow> directory option" where
  "directory_act (Join p) d = Some (d\<lparr>members := insert p (members d), remote_ids := without p (remote_ids d)\<rparr>)"
| "directory_act (Leave p) d = Some (d\<lparr>members := members d - {p}, remote_ids := without p (remote_ids d)\<rparr>)"
| "directory_act (NameRemote p r i) d =
     (if p \<in> members d \<and> remote_ids d (p, r) = None \<and> i \<notin> issued d
      then Some (d\<lparr>remote_ids := (remote_ids d)((p, r) \<mapsto> i), issued := insert i (issued d)\<rparr>) else None)"
| "directory_act (NameLan a i) d =
     (if lan_ids d a = None \<and> i \<notin> issued d
      then Some (d\<lparr>lan_ids := (lan_ids d)(a \<mapsto> i), issued := insert i (issued d)\<rparr>) else None)"

text \<open>
  What holds of every directory: only members have games, an id in use was given out, and no id stands for
  two games.
\<close>

definition directory_ok :: "directory \<Rightarrow> bool" where
  "directory_ok d \<longleftrightarrow>
     (\<forall>p r i. remote_ids d (p, r) = Some i \<longrightarrow> p \<in> members d \<and> i \<in> issued d)
     \<and> (\<forall>a i. lan_ids d a = Some i \<longrightarrow> i \<in> issued d)
     \<and> (\<forall>x y i. remote_ids d x = Some i \<longrightarrow> remote_ids d y = Some i \<longrightarrow> x = y)
     \<and> (\<forall>a b i. lan_ids d a = Some i \<longrightarrow> lan_ids d b = Some i \<longrightarrow> a = b)
     \<and> (\<forall>x a i. remote_ids d x = Some i \<longrightarrow> lan_ids d a \<noteq> Some i)"

lemma directory_ok_fewer:
  assumes "directory_ok d" "\<And>p r i. f (p, r) = Some i \<Longrightarrow> remote_ids d (p, r) = Some i \<and> p \<in> M"
  shows "directory_ok (d\<lparr>members := M, remote_ids := f\<rparr>)"
  using assms unfolding directory_ok_def by simp blast

lemma directory_ok_remote:
  assumes "directory_ok d" "p \<in> members d" "i \<notin> issued d"
  shows "directory_ok (d\<lparr>remote_ids := (remote_ids d)((p, r) \<mapsto> i), issued := insert i (issued d)\<rparr>)"
  using assms unfolding directory_ok_def by (simp split: if_split) blast

lemma directory_ok_lan:
  assumes "directory_ok d" "i \<notin> issued d"
  shows "directory_ok (d\<lparr>lan_ids := (lan_ids d)(a \<mapsto> i), issued := insert i (issued d)\<rparr>)"
  using assms unfolding directory_ok_def by (simp split: if_split) blast

interpretation directory: event_machine directory_act "\<lambda>_. True" directory_ok
proof
  show "pred_option directory_ok (directory_act a d)" if ok: "directory_ok d" for a d
  proof (cases a)
    case (Join p)
    have "directory_ok (d\<lparr>members := insert p (members d), remote_ids := without p (remote_ids d)\<rparr>)"
      by (rule directory_ok_fewer[OF ok]) (use ok in \<open>auto simp: without_def directory_ok_def split: if_splits\<close>)
    with Join show ?thesis by simp
  next
    case (Leave p)
    have "directory_ok (d\<lparr>members := members d - {p}, remote_ids := without p (remote_ids d)\<rparr>)"
      by (rule directory_ok_fewer[OF ok]) (use ok in \<open>auto simp: without_def directory_ok_def split: if_splits\<close>)
    with Leave show ?thesis by simp
  qed (use ok directory_ok_remote directory_ok_lan in simp_all)
qed

section \<open>The relay as a directory\<close>

definition remote_view :: "(peer_id \<rightharpoonup> peer) \<Rightarrow> peer_id \<times> remote_game_id \<rightharpoonup> local_game_id" where
  "remote_view ps = (\<lambda>(p, r). case ps p of None \<Rightarrow> None | Some peer \<Rightarrow> map_option rg_local_game_id (peer_games peer r))"

definition directory_of :: "relay \<Rightarrow> directory" where
  "directory_of s = \<lparr>members = dom (peers s), remote_ids = remote_view (peers s), lan_ids = local_games s,
     issued = {i. lg_u64 i < next_key (games s)}\<rparr>"

text \<open>The actions that a message permits; any peer whose channel turns out closed may leave.\<close>

fun permits :: "relay_env \<times> message \<Rightarrow> directory_action \<Rightarrow> bool" where
  "permits (_, m) (Join p) = (\<exists>h. m = AddPeer p h)"
| "permits (_, m) (Leave p) = True"
| "permits (_, m) (NameRemote p r i) = (\<exists>gm. m = Recv p \<lparr>inner = Some (Game gm)\<rparr> \<and> r = RemoteGameId (rgm_id gm))"
| "permits (_, m) (NameLan a i) = (\<exists>src port motd. m = AddLocalGame src port motd \<and> a = set_port src port)"

lemma directory_same:
  assumes "dom (peers s') = dom (peers s)" "remote_view (peers s') = remote_view (peers s)"
    "local_games s' = local_games s" "next_key (games s') = next_key (games s)"
  shows "directory_of s' = directory_of s"
  using assms by (simp add: directory_of_def)

lemma remote_view_upd:
  "remote_view (ps(p \<mapsto> peer)) = (\<lambda>(q, r). if q = p then map_option rg_local_game_id (peer_games peer r) else remote_view ps (q, r))"
  by (auto simp: remote_view_def fun_eq_iff)

lemma remote_view_same: "ps p = Some old \<Longrightarrow> peer_games new = peer_games old \<Longrightarrow> remote_view (ps(p \<mapsto> new)) = remote_view ps"
  by (auto simp: remote_view_def fun_eq_iff)

lemma remote_view_del: "remote_view (ps(p := None)) = without p (remote_view ps)"
  by (auto simp: remote_view_def without_def fun_eq_iff)

lemma leave: "directory_of (remove_peer env p s) = (directory_of s)\<lparr>members := members (directory_of s) - {p},
    remote_ids := without p (remote_ids (directory_of s))\<rparr>"
  by (simp add: directory_of_def remote_view_del relay_frame)

lemma leaves:
  "exec_events directory_act (map Leave ps) (directory_of s) = Some (directory_of (remove_peers env ps s))"
proof (induction ps arbitrary: s)
  case Nil
  then show ?case by (simp add: remove_peers_def)
next
  case (Cons p ps)
  have "remove_peers env (p # ps) s = remove_peers env ps (remove_peer env p s)"
    by (simp add: remove_peers_def)
  with Cons[of "remove_peer env p s"] show ?case by (simp add: leave)
qed

lemma issued_next:
  assumes "keys_left (games s) (Suc n)"
  shows "{i. lg_u64 i < next_key (games s) + 1} = insert (LocalGameId (next_key (games s))) {i. lg_u64 i < next_key (games s)}"
proof -
  have "unat (next_key (games s) + 1) = Suc (unat (next_key (games s)))"
    using unat_next_key[OF assms] by simp
  then have less: "k < next_key (games s) + 1 \<longleftrightarrow> k = next_key (games s) \<or> k < next_key (games s)" for k
    by (simp add: word_less_nat_alt less_Suc_eq word_unat_eq_iff disj_commute)
  show ?thesis
  proof (rule set_eqI)
    fix i
    show "i \<in> {i. lg_u64 i < next_key (games s) + 1} \<longleftrightarrow> i \<in> insert (LocalGameId (next_key (games s))) {i. lg_u64 i < next_key (games s)}"
      using less by (cases i) simp
  qed
qed

section \<open>Every message is a step of the directory\<close>

lemma permits_Leave [simp]: "permits i (Leave p)"
  by (cases i) simp

definition simulated :: "relay_env \<times> message \<Rightarrow> relay \<Rightarrow> relay \<Rightarrow> bool" where
  "simulated i s s' \<longleftrightarrow> (\<exists>as. exec_events directory_act as (directory_of s) = Some (directory_of s') \<and> (\<forall>a \<in> set as. permits i a))"

lemma simulated_refl: "directory_of s' = directory_of s \<Longrightarrow> simulated i s s'"
  unfolding simulated_def by (intro exI[of _ "[]"]) simp

lemma simulated_act: "directory_act a (directory_of s) = Some (directory_of s') \<Longrightarrow> permits i a \<Longrightarrow> simulated i s s'"
  unfolding simulated_def by (intro exI[of _ "[a]"]) simp

lemma simulated_trans: "simulated i s s1 \<Longrightarrow> simulated i s1 s2 \<Longrightarrow> simulated i s s2"
  unfolding simulated_def by (elim exE conjE, rename_tac as bs, rule_tac x = "as @ bs" in exI) (auto simp: exec_events_append)

lemma simulated_leave: "simulated i s (remove_peer env p s)"
  by (rule simulated_act[of "Leave p"]) (simp_all add: leave)

lemma simulated_leaves: "simulated i s (remove_peers env ps s)"
  unfolding simulated_def using leaves[of ps s env] by (intro exI[of _ "map Leave ps"]) auto

lemma simulated_local_game_entry:
  assumes "keys_left (games s) (Suc n)" "local_game_entry (set_port src port) s = (i, s')"
  shows "simulated (env, AddLocalGame src port motd) s s'"
proof (cases "local_games s (set_port src port)")
  case (Some j)
  with assms(2) show ?thesis by (intro simulated_refl) (simp add: local_game_entry_def)
next
  case None
  let ?a = "set_port src port"
  have "peers s' = peers s" "local_games s' = (local_games s)(?a \<mapsto> LocalGameId (next_key (games s)))"
    "next_key (games s') = next_key (games s) + 1"
    using None assms(2) by (auto simp: local_game_entry_def Id_Map.add_def next_id_def)
  then show ?thesis
    by (intro simulated_act[of "NameLan ?a (LocalGameId (next_key (games s)))"])
      (simp_all add: None directory_of_def issued_next[OF assms(1)])
qed

lemma add_game_entries:
  assumes "add_game env from gm s = Some (s', eff, r)"
  shows "peers s' = peers s \<and> next_key (games s') = next_key (games s)
    \<or> (\<exists>peer. peers s from = Some peer \<and> peer_games peer (RemoteGameId (rgm_id gm)) = None
        \<and> peers s' = (peers s)(from \<mapsto> peer\<lparr>peer_games := (peer_games peer)(RemoteGameId (rgm_id gm) \<mapsto>
            \<lparr>rg_local_game_id = LocalGameId (next_key (games s))\<rparr>)\<rparr>)
        \<and> next_key (games s') = next_key (games s) + 1)"
  using assms by (auto simp: add_game_def Let_def next_id_def split_beta split: option.splits game.splits)

lemma simulated_add_game:
  assumes "keys_left (games s) (Suc n)" "add_game env from gm s = Some (s', eff, r)"
  shows "simulated (env', Recv from \<lparr>inner = Some (Game gm)\<rparr>) s s'"
  using add_game_entries[OF assms(2)]
proof (elim disjE exE conjE)
  assume "peers s' = peers s" "next_key (games s') = next_key (games s)"
  with add_game_frame(2)[OF assms(2)] show ?thesis by (intro simulated_refl directory_same) simp_all
next
  fix peer
  let ?r = "RemoteGameId (rgm_id gm)" and ?i = "LocalGameId (next_key (games s))"
  assume peer: "peers s from = Some peer" "peer_games peer ?r = None"
    and s': "peers s' = (peers s)(from \<mapsto> peer\<lparr>peer_games := (peer_games peer)(?r \<mapsto> \<lparr>rg_local_game_id = ?i\<rparr>)\<rparr>)"
      "next_key (games s') = next_key (games s) + 1"
  have "remote_view (peers s') = (remote_view (peers s))((from, ?r) \<mapsto> ?i)"
    using peer by (auto simp: s'(1) remote_view_def fun_eq_iff)
  moreover have "dom (peers s') = dom (peers s)" "from \<in> dom (peers s)" using peer by (auto simp: s'(1))
  moreover have "remote_view (peers s) (from, ?r) = None" using peer by (simp add: remote_view_def)
  ultimately show ?thesis
    using s'(2) add_game_frame(2)[OF assms(2)]
    by (intro simulated_act[of "NameRemote from ?r ?i"]) (simp_all add: directory_of_def issued_next[OF assms(1)])
qed

lemma simulated_handle_game:
  assumes "keys_left (games s) (Suc n)" "handle_game env from gm s = Some (s', eff)"
  shows "simulated (env', Recv from \<lparr>inner = Some (Game gm)\<rparr>) s s'"
  using assms(2)
proof (cases rule: handle_gameE)
  case dropped
  then show ?thesis by (rule simulated_add_game[OF assms(1)])
next
  case (forwarded s1 added e fwd)
  obtain errors where "s' = remove_peers env errors s1"
    using forward_game_state[of env "from" "rg_local_game_id e" gm s1] forwarded(2) by auto
  then show ?thesis
    using simulated_trans[OF simulated_add_game[OF assms(1) forwarded(1)] simulated_leaves] by blast
qed

lemma directory_of_update_peer:
  assumes "peers s p = Some old" "peer_games new = peer_games old"
  shows "directory_of (s\<lparr>peers := (peers s)(p \<mapsto> new)\<rparr>) = directory_of s"
  using assms by (intro directory_same) (auto simp: remote_view_same)

lemma directory_of_update_peers:
  assumes "peers s p = Some old_p" "peer_games new_p = peer_games old_p"
    and "peers s q = Some old_q" "peer_games new_q = peer_games old_q"
  shows "directory_of (s\<lparr>peers := (peers s)(p \<mapsto> new_p, q \<mapsto> new_q)\<rparr>) = directory_of s"
  using assms by (intro directory_same) (auto simp: remote_view_def fun_eq_iff)

lemma simulated_update_leave:
  assumes "peers s p = Some old" "peer_games new = peer_games old"
  shows "simulated i s (remove_peer env q (s\<lparr>peers := (peers s)(p \<mapsto> new)\<rparr>))"
  by (rule simulated_trans[OF simulated_refl[OF directory_of_update_peer[OF assms]] simulated_leave])

lemmas simulated_updates = simulated_refl[OF refl] simulated_refl[OF directory_of_update_peer]
  simulated_refl[OF directory_of_update_peers]

lemma simulated_forward_connect:
  assumes "forward_connect env from to r cm s = Some (s', eff)"
  shows "simulated i s s'"
  using assms
  by (auto simp: forward_connect_def Let_def split: if_splits option.splits
      intro: simulated_updates simulated_update_leave)

lemma simulated_handle_data: "handle_data env from dm s = (s', eff) \<Longrightarrow> simulated i s s'"
  by (auto simp: handle_data_def Let_def split: option.splits if_splits intro: simulated_leave simulated_updates)

lemma simulated_close: "simulated i s (handle_close_connection from cm s)"
  by (auto simp: handle_close_connection_def Let_def split: option.split if_splits intro: simulated_updates)

lemma simulated_handle_message:
  assumes "keys_left (games s) (Suc n)" "handle_message (env, m) s = Some (s', eff)"
  shows "simulated (env, m) s s'"
proof (cases m)
  case (AcceptGameConnection i c)
  with assms(2) show ?thesis
    by (auto simp: accept_game_connection_def Let_def split: option.splits game.splits if_splits
        intro: simulated_updates)
next
  case (AddGameConnection p c i tx)
  with assms(2) show ?thesis
    by (auto simp: add_game_connection_def Let_def split: option.splits if_splits
        intro: simulated_update_leave simulated_updates)
next
  case (AddPeer p h)
  have "remote_view ((peers s)(p \<mapsto> Peer_new h)) = without p (remote_view (peers s))"
    by (auto simp: remote_view_def without_def Peer_new_def fun_eq_iff)
  then have "directory_act (Join p) (directory_of s) = Some (directory_of s')"
    using assms(2) AddPeer by (auto simp: add_peer_def directory_of_def)
  then show ?thesis by (rule simulated_act) (simp add: AddPeer)
next
  case (AddLocalGame src port motd)
  show ?thesis
  proof (cases "addr_port src \<noteq> discovery_port s \<or> port \<notin> listen_ports s")
    case True
    obtain i s1 errors where "local_game_entry (set_port src port) s = (i, s1)" "s' = remove_peers env errors s1"
      using add_local_game_eq[OF True] assms(2) AddLocalGame by (metis handle_message.simps(4) option.inject)
    with simulated_trans[OF simulated_local_game_entry[OF assms(1)] simulated_leaves] show ?thesis
      by (simp add: AddLocalGame)
  next
    case False
    then show ?thesis using assms(2) by (simp add: AddLocalGame add_local_game_def simulated_refl)
  qed
next
  case (Recv p m')
  show ?thesis
  proof (cases "inner m'")
    case None
    then show ?thesis using assms(2) by (simp add: Recv handle_peer_message_def simulated_refl)
  next
    case (Some x)
    show ?thesis
    proof (cases x)
      case (Game gm)
      have "m' = \<lparr>inner = Some (Game gm)\<rparr>" using Some Game by (cases m') simp
      then show ?thesis
        using assms(2) by (simp add: Recv handle_peer_message_def simulated_handle_game[OF assms(1)])
    next
      case (Connect cm)
      then show ?thesis
        using assms(2) Some
        by (auto simp: Recv handle_peer_message_def handle_connect_def connect_local_def Let_def simulated_refl
            split: option.splits game.splits intro: simulated_forward_connect)
    next
      case (Data dm)
      then show ?thesis
        using assms(2) Some by (auto simp: Recv handle_peer_message_def intro: simulated_handle_data)
    next
      case (CloseConnection cm)
      then show ?thesis
        using assms(2) Some by (auto simp: Recv handle_peer_message_def intro: simulated_close)
    qed
  qed
next
  case (RemoveGameListener i)
  with assms(2) show ?thesis
    by (auto simp: remove_game_listener_def split: option.splits game.splits if_splits
        intro!: simulated_refl directory_same)
next
  case (RemovePeer p)
  with assms(2) show ?thesis by (auto intro: simulated_leave)
qed

interpretation relay_directory: simulated_loop handle_message step_ok "\<lambda>n. n + 1 < 2 ^ 64" relay_inv
  directory_of directory_act permits
proof
  fix n s s' out and i :: "relay_env \<times> message"
  assume inv: "relay_inv n s" and "n + 1 < 2 ^ 64" and step: "handle_message i s = Some (s', out)"
  then have room: "keys_left (games s) (Suc 0)" by (intro relay_inv_room)
  obtain env m where i: "i = (env, m)" by fastforce
  from simulated_handle_message[OF room step[unfolded i]]
  show "\<exists>as. exec_events directory_act as (directory_of s) = Some (directory_of s') \<and> (\<forall>a \<in> set as. permits i a)"
    by (simp add: i simulated_def)
qed

text \<open>
  C9: the relay is a directory. From a new relay, after any messages (fewer than \<open>2^64\<close>, in environments
  that keep their promises), the tables are those of a directory that has made, for each message in turn,
  actions this message permits: peers join only when they are added, games of peers are named only when
  the peer advertises them, games of the LAN only when they are announced, and every id is new when it is
  given. So only peers that are there have games, and no id stands for two games, of peers or of the LAN.
\<close>

theorem relay_refines_directory:
  assumes "inputs_ok handle_message step_ok msgs (Relay_new port)" "length msgs < 2 ^ 64"
  shows "\<exists>s eff ass. run msgs (Relay_new port) = Some (s, eff)
    \<and> list_all2 (\<lambda>i as. \<forall>a \<in> set as. permits i a) msgs ass
    \<and> exec_events directory_act (concat ass) directory_empty = Some (directory_of s)
    \<and> directory_ok (directory_of s)"
proof -
  note inv = relay_inv_new[of port]
  obtain s eff where s: "run msgs (Relay_new port) = Some (s, eff)"
    using relay_loop.run_inv[OF inv assms(1)] assms(2) by (auto simp: run_def)
  obtain ass where ass: "list_all2 (\<lambda>i as. \<forall>a \<in> set as. permits i a) msgs ass"
    "exec_events directory_act (concat ass) (directory_of (Relay_new port)) = Some (directory_of s)"
    using relay_directory.run_simulates[OF inv assms(1) _ s[unfolded run_def]] assms(2) by auto
  have new: "directory_of (Relay_new port) = directory_empty"
    by (auto simp: directory_of_def Relay_new_def directory_empty_def id_map_default_def remote_view_def)
  have "directory_ok (directory_of s)"
    by (rule directory.exec_inv[OF _ _ ass(2)[unfolded new]]) (simp_all add: directory_ok_def directory_empty_def)
  with s ass new show ?thesis by auto
qed

theorem relay_refines_directory_witness:
  "\<exists>s eff ass. run [(env_ref, AddPeer peer_a (RelayConnectionHandle 1)), (env_ref, AddLocalGame (V4 1 4445) 25565 [])] (Relay_new 5000)
      = Some (s, eff)
    \<and> exec_events directory_act (concat ass) directory_empty = Some (directory_of s) \<and> directory_ok (directory_of s)"
proof -
  let ?ms = "[(env_ref, AddPeer peer_a (RelayConnectionHandle 1)), (env_ref, AddLocalGame (V4 1 4445) 25565 [])]"
  have "inputs_ok handle_message step_ok ?ms (Relay_new 5000)"
    by (simp add: step_ok_def env_lawful_ref split: option.split)
  from relay_refines_directory[OF this] show ?thesis by auto
qed

end
