(* ===== verification/Spec2Isabelle.thy ===== *)
theory Spec2Isabelle
  imports Relay_Duplex Approval Listener_Thread End_To_End Directory
begin

text \<open>
  A verification library for the Minecraft relay (\<open>src/relay\<close>, \<open>src/protocol\<close>).

  \<^bold>\<open>The program.\<close> Relays on different networks connect to each other over encrypted TCP connections
  and make games that are opened to one LAN visible and playable on the others. Each relay listens to
  the multicast advertisements of its LAN (\<open>discovery.rs\<close>), tells its peers about the games, forwards
  the advertisements of its peers for at most two hops, and for every game of a peer opens a listener on
  its own host and advertises it on its own LAN. A player who connects there is connected through the
  chain of relays to the game, and data is passed along both ways under connection ids that are
  translated at every relay. One thread owns the relay's state and handles messages from a queue
  (\<open>Relay::run\<close>, \<open>relay.rs\<close>); the other threads own one connection or listener each and talk to it
  through channels.

  \<^bold>\<open>The theories of the parts.\<close>
  \<^item> \<open>Relay_Prelude\<close>: the types of bytes, integers and results, lemmas on maps, and loops with their
    rules as locales: message loops whose handlers may panic, with an invariant (\<open>counted_loop\<close>) and with a
    simulation by an abstract machine (\<open>simulated_loop\<close>), and event-driven machines that model the
    interleaving of threads (\<open>event_machine\<close>).
  \<^item> \<open>Rust_Std\<close>: what the sources use of the standard library: errors, socket addresses, big-endian and
    decimal integers, UTF-8, byte streams, and what an asynchronous function has come to (\<open>poll\<close>).
    \<open>Sockets\<close>: the calls to the system that open and set up sockets; a socket is the list of the calls made
    on it, what the system answers is given.
  \<^item> \<open>Id_Map\<close> (\<open>id_map.rs\<close>): the map that hands out its own keys from a 64-bit counter, against the
    locale \<open>id_source\<close>, which is interpreted for the relay's games.
  \<^item> \<open>Discovery\<close> (\<open>discovery.rs\<close>): parser, encoder, sender and listener of the LAN advertisements. The
    parser combinators of \<open>nom\<close> and the buffers of \<open>bytes\<close> are parameters whose documented laws are the
    locales \<open>nom_parsers\<close>, \<open>buf_writer\<close> and \<open>slice_writer\<close>, each interpreted on a reference
    implementation. The parser refines a direct definition of the grammar.
  \<^item> \<open>Protocol\<close> (\<open>minecraft-relay.proto\<close>, \<open>protocol/src/lib.rs\<close>): the messages between relays and the three
    calls of their codec. \<open>Protobuf\<close>: the documented wire format, which interprets the locale
    \<open>message_codec\<close>, and the lengths of encodings.
  \<^item> \<open>Relay_Types\<close>, \<open>Relay_Ops\<close> (\<open>relay.rs\<close>, \<open>impl Relay\<close>): the relay's state with the fields of the
    source, and one definition per handler. A handler maps the environment of the step (which channels
    are open, the outcome of binding a listener, the iteration order of hash maps) and the state to a new
    state and a list of effects; \<open>None\<close> is a panic. \<open>run\<close> is the loop over messages.
  \<^item> \<open>Relay_Inv\<close>: the invariant \<open>relay_wf\<close>, and \<open>wf_ports\<close> for the recorded ports, with their preservation by
    every handler. \<open>Relay_Props\<close>: what the
    handlers achieve on advertisements. \<open>Relay_Routing\<close>: connections through the relay, removal of peers,
    permanence of ids, and the places where the bookkeeping goes wrong.
  \<^item> \<open>Relay_Connection\<close>, \<open>Relay_Handshake\<close>, \<open>Relay_Link\<close> (\<open>relay/connection.rs\<close>): frames, the read and write
    loops, both of them interleaved; the handshake loop; key pairs and how they are shown, opening a
    connection on either side and what the relay learns of its peer. The Noise implementation (\<open>snow\<close>) is a
    parameter; \<open>noise_session\<close>, \<open>noise_writes\<close>, \<open>ix_handshake\<close> and the locale \<open>ix_noise\<close> state what is relied on, and a
    reference implementation without secrecy meets them. \<open>Relay_Listener\<close> (\<open>relay/listener.rs\<close>): the listener
    for relays and the loop of \<open>RelayHandle::listen\<close> that restarts it.
  \<^item> \<open>Game_Listener\<close> (\<open>game/listener.rs\<close>): the accept loop and \<open>keepalive\<close> as atomic steps of two threads on
    a reference-counted flag, with an inductive step relation. \<open>Game_Connection\<close> (\<open>game/connection.rs\<close> and
    the threads of \<open>relay.rs\<close>): the loops that carry a player's or a game's connection.
  \<^item> \<open>Relay_Handle\<close> (\<open>relay.rs\<close>, \<open>RelayHandle\<close>, \<open>PeerConnection\<close>): the thread that connects to a relay, with
    cancellation, and the threads that accept relays, with approval of keys. \<open>Main_UI\<close>, \<open>Main_Start\<close>
    (\<open>main.rs\<close>): the user interface loop, the reading of standard input, the discovery thread and \<open>main\<close>.

  \<^bold>\<open>The theories of parts together.\<close>
  \<^item> \<open>Relay_Duplex\<close>: the two ends of a link, both reading and writing, over the locale \<open>noise_channel\<close>.
  \<^item> \<open>Approval\<close>: the accepting threads, the closure of \<open>main.rs\<close> that asks, the user interface and the user.
  \<^item> \<open>Listener_Thread\<close>: a game listener, its thread, and the relay that keeps it alive and forgets it.
  \<^item> \<open>End_To_End\<close>: two relays, from a game on one LAN to a player on the other and back.
  \<^item> \<open>Directory\<close>: the relay's tables as a directory of games, which the message loop refines.
  \<^item> This theory: networks of relays, the program from \<open>main\<close> to the relay's tables, and properties from the
    relay down to the wire.

  \<^bold>\<open>What is shown.\<close> From a new relay, every sequence of messages is handled without a panic and keeps
  the invariant, as long as fewer than \<open>2^64\<close> messages are handled (the counter of ids has 64 bits); seen as a
  directory, ids are never given out twice. The invariant leaves out the ports to be ignored in discovery
  (\<open>listen_ports\<close>): they are those of the games' listeners only as long as new listeners get ports that
  are not recorded as in use (\<open>fresh_port\<close>), which the system does not promise; the properties that rest on
  it say so. No flood of messages goes on for ever in any network; a program that is running lists every
  game announced on its LAN, and does not take its own advertisements for such games while it has their
  listeners; advertised games resolve and can be played across two relays; connections between peers carry
  data both ways; what one relay queues is what the other handles, in both directions at once and however the
  bytes arrive; two relays that shake hands know each other's keys; only relays the user let in are run;
  listening, for games and for relays, goes on after every error; packets and keys survive printing and
  parsing; messages of up to 65519 bytes are written as one frame. The properties whose text says so show
  defects: colliding connection ids, closes that are not passed on, reconnecting peers, a port that is
  forgotten while in use, the late advertisement of a removed peer, a lost cancellation, a race of the
  keepalive flag, MOTDs that are received and can not be sent, over-long advertisements.

  \<^bold>\<open>Bounds.\<close> No definition uses fuel. Loops over input are recursive in the input that has arrived and
  return \<open>Pending\<close> (or \<open>None\<close>) when they wait for more; loops over queues and threads are functions of the
  sequence of events. Machine integers have their width: ids wrap at \<open>2^64\<close>, frame lengths at \<open>2^16\<close>.

  \<^bold>\<open>Not modelled.\<close> Logging, except that a call in the arguments of a log line is made only when the
  line is enabled (\<open>main\<close>); waiting times, except that a timeout is an event; memory orderings weaker than
  sequential consistency; the shrinking of hash maps; the cryptography of Noise; the resolution of host
  names; panics of the arithmetic of debug builds on overflow of a connection id (the model wraps, as
  release builds do); the module declarations and the build script, which runs the protobuf compiler.
\<close>

section \<open>Relays in a network\<close>

text \<open>
  Several relays, and the messages under way between them: to which relay, from which peer as that
  relay knows it, and the message. Which relay and which peer the handle of a queue leads to is given by
  \<open>route\<close>. A step delivers a message with a hop count, in whatever environment.
\<close>

record network =
  relays :: "nat \<Rightarrow> relay"
  flight :: "(nat \<times> peer_id \<times> relay_message) multiset"

definition sends ::
  "(nat \<Rightarrow> relay_connection_handle \<Rightarrow> nat \<times> peer_id) \<Rightarrow> nat \<Rightarrow> effect list \<Rightarrow> (nat \<times> peer_id \<times> relay_message) list"
where
  "sends route n eff = List.map_filter
     (\<lambda>e. case e of SendPeer h m \<Rightarrow> Some (fst (route n h), snd (route n h), m) | _ \<Rightarrow> None) eff"

inductive flood_step ::
  "(nat \<Rightarrow> relay_connection_handle \<Rightarrow> nat \<times> peer_id) \<Rightarrow> network \<Rightarrow> network \<Rightarrow> bool"
  for route
where
  deliver: "flight N = add_mset (n, p, m) F \<Longrightarrow> message_hops m \<noteq> None \<Longrightarrow>
    handle_peer_message env p m (relays N n) = Some (s', eff) \<Longrightarrow>
    flood_step route N \<lparr>relays = (relays N)(n := s'), flight = F + mset (sends route n eff)\<rparr>"

text \<open>How many more times a message can be passed on, and one.\<close>

definition rank :: "relay_message \<Rightarrow> nat" where
  "rank m = (case message_hops m of None \<Rightarrow> 0 | Some k \<Rightarrow> if k \<le> MAX_FORWARDING_HOPS then 3 - unat k else 1)"

lemma in_sends:
  "x \<in> set (sends route n eff) \<Longrightarrow> \<exists>h m. SendPeer h m \<in> set eff \<and> x = (fst (route n h), snd (route n h), m)"
  by (auto simp: sends_def List.map_filter_def split: effect.splits)

lemma rank_decreases:
  assumes "handle_peer_message env p m s = Some (s', eff)" "SendPeer h m' \<in> set eff" "message_hops m \<noteq> None"
  shows "rank m' < rank m"
proof -
  have pos: "0 < rank m"
    using assms(3) by (auto simp: rank_def MAX_FORWARDING_HOPS_def word_le_nat_alt split: option.split)
  show ?thesis
  proof (cases "message_hops m'")
    case None
    then show ?thesis using pos by (simp add: rank_def)
  next
    case (Some k')
    obtain k where k: "message_hops m = Some k" "k < MAX_FORWARDING_HOPS" "unat k' = unat k + 1" "k' \<le> MAX_FORWARDING_HOPS"
      using peer_message_hops[OF assms(1,2) Some] by blast
    then have "unat k < 2" by (simp add: MAX_FORWARDING_HOPS_def word_less_nat_alt)
    then have "2 - unat k < 3 - unat k" by arith
    then show ?thesis using k Some by (simp add: rank_def)
  qed
qed

definition ranks :: "network \<Rightarrow> nat multiset" where
  "ranks N = image_mset (\<lambda>(n, p, m). rank m) (flight N)"

lemma flood_step_decreases:
  assumes "flood_step route N N'"
  shows "(ranks N', ranks N) \<in> mult1 less_than"
  using assms
proof cases
  case (deliver n p m F env s' eff)
  show ?thesis
  proof (rule mult1I)
    show "ranks N = add_mset (rank m) (image_mset (\<lambda>(n, p, m). rank m) F)"
      using deliver by (simp add: ranks_def)
    show "ranks N' = image_mset (\<lambda>(n, p, m). rank m) F + image_mset (\<lambda>(n, p, m). rank m) (mset (sends route n eff))"
      using deliver by (simp add: ranks_def)
    show "(b, rank m) \<in> less_than" if "b \<in># image_mset (\<lambda>(n, p, m). rank m) (mset (sends route n eff))" for b
      using that rank_decreases[OF deliver(4) _ deliver(3)] by (auto dest!: in_sends)
  qed
qed

text \<open>
  C2: floods die out. However the relays are connected, in cycles too, whatever states they are in
  and in whatever order messages are delivered, the advertisements and connection requests under
  way can not be passed on for ever: there is no infinite sequence of deliveries.
\<close>

theorem flood_terminates: "\<not> (\<exists>f. \<forall>i. flood_step route (f i) (f (Suc i)))"
proof
  assume "\<exists>f. \<forall>i. flood_step route (f i) (f (Suc i))"
  then obtain f where "\<forall>i. (ranks (f (Suc i)), ranks (f i)) \<in> mult1 less_than"
    using flood_step_decreases by blast
  then have "\<exists>g. \<forall>i. (g (Suc i), g i) \<in> mult1 less_than" by (intro exI[of _ "\<lambda>i. ranks (f i)"])
  then show False
    using wf_mult1[OF wf_less_than] unfolding wf_iff_no_infinite_down_chain by blast
qed

section \<open>The program on its LAN\<close>

text \<open>
  C23: a program that is running knows the games of its LAN. Once \<open>main\<close> has got to run the relay, it has started
  the discovery thread on a socket that is bound to port 4445 and has joined the multicast group. Whatever that
  socket yields, errors included, when the relay handles the messages of the discovery thread, in any order
  and among any others, there is no panic, and every datagram that parses and comes from another port than
  that of the relay's own sender has put its game into the relay's tables, under an id that leads to the
  game's address.
\<close>

theorem running_program_lists_games:
  assumes "main info apple os_d os_s os_l B args = (started, Pending)"
    and "\<forall>(env, m) \<in> set ms. env_lawful env" "length ms < 2 ^ 64"
    and "set (discovery_loop N (\<lambda>_. True) rs []) \<subseteq> set (map snd ms)"
  shows "\<exists>listener relay s' eff. StartDiscoveryThread listener \<in> set started \<and> RunRelay relay \<in> set started
    \<and> Bind (V4 0 4445) \<in> set (dl_socket listener) \<and> JoinMulticastV4 MULTICAST_GROUP 0 \<in> set (dl_socket listener)
    \<and> run ms relay = Some (s', eff)
    \<and> (\<forall>d from packet. Inr (d, from) \<in> set rs \<and> parse N (take MAX_PACKET_SIZE d) = Ok packet
          \<and> addr_port from \<noteq> addr_port (os_local_addr os_s) \<longrightarrow>
        (\<exists>i. local_games s' (set_port from (dp_port packet)) = Some i
          \<and> im_map (games s') i = Some (Local \<lparr>lgame_addr = set_port from (dp_port packet)\<rparr>)))"
proof -
  let ?p = "addr_port (os_local_addr os_s)"
  have ok: "inputs_ok handle_message step_ok ms (Relay_new ?p)"
    by (rule inputs_ok_all) (use assms(2) in \<open>auto simp: step_ok_def\<close>)
  obtain s' eff where run: "run ms (Relay_new ?p) = Some (s', eff)"
    using relay_loop.run_inv[OF relay_inv_new ok] assms(3) by (auto simp: run_def)
  have "\<exists>i. local_games s' (set_port from (dp_port packet)) = Some i
      \<and> im_map (games s') i = Some (Local \<lparr>lgame_addr = set_port from (dp_port packet)\<rparr>)"
    if "Inr (d, from) \<in> set rs" "parse N (take MAX_PACKET_SIZE d) = Ok packet" "addr_port from \<noteq> ?p" for d "from" packet
  proof -
    have "local_game_message (from, packet) \<in> set (discovery_loop N (\<lambda>_. True) rs [])"
      unfolding discovery_loop_eq using valid_packet_received[OF that(1,2)] by auto
    then obtain env where "(env, AddLocalGame from (dp_port packet) (dp_motd packet)) \<in> set ms"
      using assms(4) by (fastforce simp: local_game_message_def)
    from announced_game_listed[OF ok assms(3) this that(3) run] show ?thesis .
  qed
  then show ?thesis
    using main_running[OF assms(1)] run
    by (intro exI[of _ "DiscoveryListener (listener_calls apple)"] exI[of _ "Relay_new ?p"] exI[of _ s'] exI[of _ eff])
      (auto simp: listener_calls_def PORT_def)
qed

theorem running_program_lists_games_witness:
  "\<exists>s' eff i. run [(env_ref, AddPeer peer_a (RelayConnectionHandle 1)), (env_ref, AddLocalGame (V4 1 4000) 40000 [65])] (Relay_new 5000)
      = Some (s', eff)
    \<and> local_games s' (V4 1 40000) = Some i \<and> im_map (games s') i = Some (Local \<lparr>lgame_addr = V4 1 40000\<rparr>)"
proof -
  let ?ms = "[(env_ref, AddPeer peer_a (RelayConnectionHandle 1)), (env_ref, AddLocalGame (V4 1 4000) 40000 [65])]"
  let ?p = "\<lparr>dp_port = 40000, dp_motd = [65]\<rparr>"
  let ?rs = "[Inl TimedOut, Inr (packet_text ?p, V4 1 4000)]"
  have "length (packet_text ?p) \<le> MAX_PACKET_SIZE" unfolding packet_text_example by (simp add: MAX_PACKET_SIZE_def)
  then have parse: "parse nom_ref (take MAX_PACKET_SIZE (packet_text ?p)) = Ok ?p"
    by (simp add: nom_ref.parse_eq_spec parse_spec_packet_text close_simps)
  then have "set (discovery_loop nom_ref (\<lambda>_. True) ?rs []) \<subseteq> set (map snd ?ms)"
    by (simp add: discovery_loop_eq datagrams_def valid_packets_def List.map_filter_simps local_game_message_def)
  from running_program_lists_games[OF main_ref _ _ this]
  obtain relay s' eff where r: "RunRelay relay \<in> set (fst (main False False os_ref os_ref os_ref builder_ref [''a'']))"
    "run ?ms relay = Some (s', eff)"
    "\<forall>d from packet. Inr (d, from) \<in> set ?rs \<and> parse nom_ref (take MAX_PACKET_SIZE d) = Ok packet
        \<and> addr_port from \<noteq> addr_port (os_local_addr os_ref) \<longrightarrow>
      (\<exists>i. local_games s' (set_port from (dp_port packet)) = Some i
        \<and> im_map (games s') i = Some (Local \<lparr>lgame_addr = set_port from (dp_port packet)\<rparr>))"
    by (auto simp: env_lawful_ref main_ref)
  from r(1) have "relay = Relay_new 5000" by (simp add: main_ref)
  with r(2) spec[OF spec[OF spec[OF r(3), of "packet_text ?p"], of "V4 1 4000"], of ?p] parse show ?thesis
    by (auto simp: os_ref_def)
qed

section \<open>From the relay to the wire\<close>

text \<open>
  What players and games send fits into a frame: a data message with at most the 16384 bytes that
  are read at a time has an encoding that is never refused for its length.
\<close>

lemma player_data_fits:
  assumes "length d \<le> 16384"
  shows "encoded_len protobuf (data_message c d) \<le> 65519"
proof -
  let ?fs = "snd (inner_fields (Data \<lparr>rd_connection_id = cid_id c, rd_connection_local = cid_local c, rd_data = d\<rparr>))"
  have "length (fields_bytes (bytes_field 3 d)) \<le> 16388"
    using assms length_varint_le[of "length d" 2] by (auto simp: bytes_field_def fields_bytes_def varint.simps[of 26])
  moreover have "length (fields_bytes (bool_field 2 (cid_local c))) \<le> 2"
    by (simp add: bool_field_def fields_bytes_def varint.simps)
  ultimately have n: "length (fields_bytes ?fs) \<le> 16401"
    using length_uint_field[of 1 "cid_id c"] by simp
  have "length (varint (length (fields_bytes ?fs))) \<le> 3"
    using n length_varint_le[of "length (fields_bytes ?fs)" 2] by simp
  with n show ?thesis
    by (simp add: protobuf_def message_bytes_def data_message_def varint.simps[of 26])
qed

text \<open>
  C34: an advertisement can break the links it does not come over. A peer can send an advertisement
  that just fits into a frame; the relay forwards it to every other peer with a hop count that is no
  longer 0, and that message is refused by the encryption, which ends the connection to that peer.
\<close>

theorem long_advertisement_breaks_links:
  assumes "relay_wf s" "env_lawful env" "keys_left (games s) (Suc n)"
    and "peers s from = Some peer" "q \<noteq> from" "peers s q = Some peer_q" "send_ok env (peer_handle peer_q)"
  shows "\<exists>gm s' eff m. encoded_len protobuf \<lparr>inner = Some (Game gm)\<rparr> \<le> 65519
    \<and> handle_game env from gm s = Some (s', eff) \<and> SendPeer (peer_handle peer_q) m \<in> set eff
    \<and> (\<forall>(T :: ('t, 'e) noise_transport) linked w t. noise_session T linked \<longrightarrow>
        (\<exists>e t'. write_step protobuf T (Received m) w t
           = (Ready (Err (CE_Encrypt e)) :: ('e, unit, unit) loop_end, [], t')))"
proof -
  let ?gm = long_game
  obtain s1 s' listened adv fwd e g where h: "handle_game env from ?gm s = Some (s', listened @ adv @ fwd)"
    and "add_game env from ?gm s = Some (s1, listened @ adv, Some e)"
    and s1: "relay_wf s1" "peers s1 = (peers s)(from \<mapsto> peer\<lparr>peer_games := (peer_games peer)(RemoteGameId (rgm_id ?gm) \<mapsto> e)\<rparr>)"
    and fwd: "forward_game env from (rg_local_game_id e) ?gm s1 = (s', fwd)"
    by (rule handle_game_known[OF assms(1-4), of ?gm]) (rule that; assumption)
  let ?m = "\<lparr>inner = Some (Game (long_game\<lparr>rgm_id := lg_u64 (rg_local_game_id e), rgm_hops := 1\<rparr>))\<rparr>"
  have "peers s1 q = Some peer_q" using s1(2) assms(5,6) by simp
  from forward_game_reaches[OF relay_wfD(1)[OF s1(1)] assms(2) _ assms(5) this assms(7) fwd]
  have "SendPeer (peer_handle peer_q) ?m \<in> set (listened @ adv @ fwd)"
    by (simp add: long_game_def MAX_FORWARDING_HOPS_def)
  moreover have "\<exists>e t'. write_step protobuf T (Received ?m) w t
      = (Ready (Err (CE_Encrypt e)) :: ('e, unit, unit) loop_end, [], t')"
    if "noise_session T linked" for T :: "('t, 'e) noise_transport" and linked w t
    using long_game_len by (intro protobuf.message_refused[OF that]) auto
  ultimately show ?thesis using h long_game_len(1) by (intro exI[of _ ?gm]) auto
qed

theorem long_advertisement_breaks_links_witness:
  "\<exists>gm s' eff m. encoded_len protobuf \<lparr>inner = Some (Game gm)\<rparr> \<le> 65519
    \<and> handle_game env_ref peer_a gm two_peers = Some (s', eff) \<and> SendPeer (RelayConnectionHandle 2) m \<in> set eff
    \<and> (\<forall>(T :: (unit, unit) noise_transport) linked w t. noise_session T linked \<longrightarrow>
        (\<exists>e t'. write_step protobuf T (Received m) w t
           = (Ready (Err (CE_Encrypt e)) :: (unit, unit, unit) loop_end, [], t')))"
proof -
  have handle: "peer_handle (Peer_new (RelayConnectionHandle 2)) = RelayConnectionHandle 2"
    by (simp add: Peer_new_def)
  show ?thesis
    by (rule long_advertisement_breaks_links[OF wf_two_peers env_lawful_ref room_two_peers,
          of peer_a "Peer_new (RelayConnectionHandle 1)" peer_b "Peer_new (RelayConnectionHandle 2)", unfolded handle])
      simp_all
qed

end
